theory Spec2Isabelle
  imports Main
begin

section \<open>broker/util/variant.hh: a tagged union with visitation\<close>

text \<open>
  The header is a C++ template library: \<open>variant<Tag, Ts...>\<close> keeps one object of
  one of the alternative types \<open>Ts\<close> in raw storage together with a discriminator,
  \<open>detail::recursive_wrapper<T>\<close> keeps a \<open>T\<close> on the heap behind a
  \<open>std::unique_ptr\<close>, and the free functions \<open>apply_visitor\<close>, \<open>visit\<close>,
  \<open>get\<close>, \<open>is\<close> and \<open>which\<close> dispatch on the active alternative.

  The embedding takes the template parameters as explicit arguments: the list \<open>Ts\<close> of
  alternative types, and an environment \<open>E\<close> with what the instantiating program
  supplies for every type name (its default value, when its copy constructor and its copy
  assignment raise, the state a moved-from object is left in, its \<open>==\<close>, its \<open><\<close>,
  its \<open>std::hash\<close>, and the rank of the implicit conversions into it). Objects carry
  their dynamic type, the heap is an explicit store, and every way the C++ can fail to
  return a value (an exception of an alternative, the \<open>assert\<close> of the dispatch,
  undefined behaviour, a program the compiler rejects) is a value of \<open>error\<close>.
\<close>

subsection \<open>Errors, types, objects, the heap\<close>

type_synonym addr = nat

text \<open>The discriminator, read as \<open>static_cast<size_t>(tag)\<close>.\<close>

type_synonym tag = nat

datatype 'e error =
    Thrown 'e              \<comment> \<open>an exception raised by an operation of an alternative type\<close>
  | Assertion_failed       \<comment> \<open>the \<open>assert\<close> of \<open>visit_impl\<close>\<close>
  | Undefined_behaviour    \<comment> \<open>a null or dangling dereference, a read of storage that holds no such object\<close>
  | Ill_formed             \<comment> \<open>the instantiation does not compile\<close>

text \<open>A C++ type: a type \<open>T\<close> named by the instantiating program, or \<open>detail::recursive_wrapper<T>\<close>.\<close>

datatype 't ctype = Plain 't | recursive_wrapper 't

text \<open>
  An object: a \<open>T\<close> with its abstract value, or a \<open>recursive_wrapper<T>\<close> with its one
  field \<open>std::unique_ptr<T> item\<close> (\<open>None\<close> is the null pointer).
\<close>

datatype ('t, 'a) obj = Obj 't 'a | Wrapper_obj 't "addr option"

fun type_of :: "('t, 'a) obj \<Rightarrow> 't ctype" where
  "type_of (Obj T x) = Plain T"
| "type_of (Wrapper_obj T p) = recursive_wrapper T"

text \<open>
  The heap: the cell at address \<open>a\<close> is \<open>h ! a\<close>; \<open>None\<close> is a freed cell. \<open>new\<close>
  never hands out an address twice.
\<close>

type_synonym 'a heap = "'a option list"

definition deref :: "'a heap \<Rightarrow> addr \<Rightarrow> 'a option" where
  "deref h a = (if a < length h then h ! a else None)"

definition heap_new :: "'a heap \<Rightarrow> 'a \<Rightarrow> addr \<times> 'a heap" where
  "heap_new h x = (length h, h @ [Some x])"

definition heap_delete :: "'a heap \<Rightarrow> addr \<Rightarrow> 'a heap" where
  "heap_delete h a = h[a := None]"

text \<open>A store through a reference to the cell at \<open>a\<close>.\<close>

definition heap_store :: "'a heap \<Rightarrow> addr \<Rightarrow> 'a \<Rightarrow> 'a heap" where
  "heap_store h a x = h[a := Some x]"

subsection \<open>What the instantiating program supplies for its types\<close>

record ('t, 'a, 'e) type_env =
  T_default :: "'t \<Rightarrow> 'a"                          \<comment> \<open>\<open>T()\<close>\<close>
  T_copy_throws :: "'t \<Rightarrow> 'a \<Rightarrow> 'e option"           \<comment> \<open>\<open>T(const T&)\<close> raises this on that source\<close>
  T_assign_throws :: "'t \<Rightarrow> 'a \<Rightarrow> 'a \<Rightarrow> 'e option"    \<comment> \<open>\<open>lhs = rhs\<close> raises this\<close>
  T_assign_residue :: "'t \<Rightarrow> 'a \<Rightarrow> 'a \<Rightarrow> 'a"          \<comment> \<open>the state of \<open>lhs\<close> after \<open>lhs = rhs\<close> raised\<close>
  T_moved_from :: "'t \<Rightarrow> 'a \<Rightarrow> 'a"                  \<comment> \<open>the state of an object after it was moved from\<close>
  T_equal :: "'t \<Rightarrow> 'a \<Rightarrow> 'a \<Rightarrow> bool"                \<comment> \<open>\<open>operator==\<close> of \<open>T\<close>\<close>
  T_less :: "'t \<Rightarrow> 'a \<Rightarrow> 'a \<Rightarrow> bool"                 \<comment> \<open>\<open>operator<\<close> of \<open>T\<close>\<close>
  T_hash :: "'t \<Rightarrow> 'a \<Rightarrow> nat"                       \<comment> \<open>\<open>std::hash<T>\<close>\<close>
  T_rank :: "'t \<Rightarrow> 't ctype \<Rightarrow> nat option"
    \<comment> \<open>the rank overload resolution gives the implicit conversion of an argument of the
        type to a parameter of the C++ type, when the two differ and there is such a
        conversion (smaller is better)\<close>
  T_convert :: "'t \<Rightarrow> 't \<Rightarrow> 'a \<Rightarrow> 'a"
    \<comment> \<open>the value the implicit conversion from the first type to the second yields\<close>

text \<open>
  An abstract value is what \<open>==\<close> looks at, so a copy that returns has the value of its
  source; a copy constructor is the identity or an exception.
\<close>

definition T_copy_ctor :: "('t, 'a, 'e) type_env \<Rightarrow> 't \<Rightarrow> 'a \<Rightarrow> 'e error + 'a" where
  "T_copy_ctor E T x = (case T_copy_throws E T x of Some e \<Rightarrow> Inl (Thrown e) | None \<Rightarrow> Inr x)"

text \<open>\<open>lhs = rhs\<close> for two \<open>T\<close>: the outcome, and the new state of \<open>lhs\<close>.\<close>

definition T_copy_assign :: "('t, 'a, 'e) type_env \<Rightarrow> 't \<Rightarrow> 'a \<Rightarrow> 'a \<Rightarrow> ('e error + unit) \<times> 'a" where
  "T_copy_assign E T lhs rhs =
     (case T_assign_throws E T lhs rhs of
        Some e \<Rightarrow> (Inl (Thrown e), T_assign_residue E T lhs rhs)
      | None \<Rightarrow> (Inr (), rhs))"

text \<open>The value category of an argument.\<close>

datatype category = Lvalue | Rvalue

text \<open>
  A \<open>T\<close> constructed from an argument \<open>x\<close> of type \<open>S\<close>: the copy constructor for an
  lvalue \<open>T\<close>, the move constructor for an rvalue \<open>T\<close>, the conversion otherwise.
\<close>

definition T_from ::
  "('t, 'a, 'e) type_env \<Rightarrow> 't \<Rightarrow> 't \<Rightarrow> category \<Rightarrow> 'a \<Rightarrow> 'e error + 'a" where
  "T_from E T S cat x =
     (if S = T then (case cat of Lvalue \<Rightarrow> T_copy_ctor E T x | Rvalue \<Rightarrow> Inr x)
      else Inr (T_convert E S T x))"

subsection \<open>detail::recursive_wrapper\<close>

text \<open>
  A wrapper is its field \<open>item\<close>. Every function takes the heap and returns the heap it
  leaves; a function that can raise returns the outcome first.
\<close>

text \<open>
  \<open>T& get() { return *item; }\<close> and \<open>const T& get() const { return *item; }\<close>, read:
  the wrapped value. A \<open>unique_ptr\<close> that is null, or whose cell was freed, must not be
  dereferenced.
\<close>

definition rw_get :: "'a heap \<Rightarrow> addr option \<Rightarrow> 'e error + 'a" where
  "rw_get h item =
     (case item of
        None \<Rightarrow> Inl Undefined_behaviour
      | Some a \<Rightarrow> (case deref h a of None \<Rightarrow> Inl Undefined_behaviour | Some x \<Rightarrow> Inr x))"

text \<open>
  \<open>recursive_wrapper(const U& u) : item(new T(u))\<close> and
  \<open>recursive_wrapper(U&& u) : item(new T(std::forward<U>(u)))\<close>, for a \<open>u\<close> of type \<open>S\<close>.
\<close>

definition rw_ctor ::
  "('t, 'a, 'e) type_env \<Rightarrow> 't \<Rightarrow> 't \<Rightarrow> category \<Rightarrow> 'a \<Rightarrow> 'a heap
     \<Rightarrow> ('e error + addr option) \<times> 'a heap" where
  "rw_ctor E T S cat u h =
     (case T_from E T S cat u of
        Inl e \<Rightarrow> (Inl e, h)
      | Inr x \<Rightarrow> (let (a, h') = heap_new h x in (Inr (Some a), h')))"

text \<open>\<open>recursive_wrapper(const recursive_wrapper& other) : item(new T(other.get()))\<close>\<close>

definition rw_copy_ctor ::
  "('t, 'a, 'e) type_env \<Rightarrow> 't \<Rightarrow> addr option \<Rightarrow> 'a heap \<Rightarrow> ('e error + addr option) \<times> 'a heap" where
  "rw_copy_ctor E T other h =
     (case rw_get h other of
        Inl e \<Rightarrow> (Inl e, h)
      | Inr x \<Rightarrow>
          (case T_copy_ctor E T x of
             Inl e \<Rightarrow> (Inl e, h)
           | Inr y \<Rightarrow> (let (a, h') = heap_new h y in (Inr (Some a), h'))))"

text \<open>
  \<open>recursive_wrapper(recursive_wrapper&& other) noexcept : item(other.item.release())\<close>:
  the new wrapper's \<open>item\<close> and the one \<open>other\<close> is left with.
\<close>

definition rw_move_ctor :: "addr option \<Rightarrow> addr option \<times> addr option" where
  "rw_move_ctor other = (other, None)"

text \<open>
  \<open>template <typename U> void assign(U&& u) { *item = std::forward<U>(u); }\<close>, which is
  also the body of \<open>operator=(const T& rhs)\<close> and of \<open>operator=(T&& rhs)\<close>.
\<close>

definition rw_assign ::
  "('t, 'a, 'e) type_env \<Rightarrow> 't \<Rightarrow> addr option \<Rightarrow> 'a \<Rightarrow> 'a heap \<Rightarrow> ('e error + unit) \<times> 'a heap" where
  "rw_assign E T item u h =
     (case item of
        None \<Rightarrow> (Inl Undefined_behaviour, h)
      | Some a \<Rightarrow>
          (case deref h a of
             None \<Rightarrow> (Inl Undefined_behaviour, h)
           | Some old \<Rightarrow>
               (let (r, new) = T_copy_assign E T old u in (r, heap_store h a new))))"

text \<open>\<open>recursive_wrapper& operator=(const recursive_wrapper& rhs) { assign(rhs.get()); return *this; }\<close>\<close>

definition rw_copy_assign ::
  "('t, 'a, 'e) type_env \<Rightarrow> 't \<Rightarrow> addr option \<Rightarrow> addr option \<Rightarrow> 'a heap \<Rightarrow> ('e error + unit) \<times> 'a heap" where
  "rw_copy_assign E T item rhs h =
     (case rw_get h rhs of
        Inl e \<Rightarrow> (Inl e, h)
      | Inr x \<Rightarrow> rw_assign E T item x h)"

text \<open>
  \<open>recursive_wrapper& operator=(recursive_wrapper&& rhs) { item = std::move(rhs.item); }\<close>:
  the \<open>unique_ptr\<close> takes the pointer of \<open>rhs\<close>, leaves \<open>rhs\<close> null and deletes what it
  owned; then control flows off the end of a function that returns a reference, with no
  \<open>return\<close> statement, which is undefined in C++ whether or not the caller uses the
  value. (The other three assignment operators end in \<open>return *this;\<close>.) The result
  would be the two \<open>item\<close> fields, the left one first, and the heap.
\<close>

definition rw_move_assign ::
  "addr option \<Rightarrow> addr option \<Rightarrow> 'a heap
     \<Rightarrow> 'e error + ((addr option \<times> addr option) \<times> 'a heap)" where
  "rw_move_assign item rhs h = Inl Undefined_behaviour"

text \<open>The implicit destructor: the \<open>unique_ptr\<close> deletes what it owns.\<close>

definition rw_dtor :: "addr option \<Rightarrow> 'a heap \<Rightarrow> 'a heap" where
  "rw_dtor item h = (case item of None \<Rightarrow> h | Some a \<Rightarrow> heap_delete h a)"

text \<open>\<open>operator==(x, y) { return *x.item == *y.item; }\<close>\<close>

definition rw_eq ::
  "('t, 'a, 'e) type_env \<Rightarrow> 't \<Rightarrow> 'a heap \<Rightarrow> addr option \<Rightarrow> addr option \<Rightarrow> 'e error + bool" where
  "rw_eq E T h x y =
     (case rw_get h x of
        Inl e \<Rightarrow> Inl e
      | Inr a \<Rightarrow> (case rw_get h y of Inl e \<Rightarrow> Inl e | Inr b \<Rightarrow> Inr (T_equal E T a b)))"

text \<open>\<open>operator<(x, y) { return *x.item < *y.item; }\<close>\<close>

definition rw_less ::
  "('t, 'a, 'e) type_env \<Rightarrow> 't \<Rightarrow> 'a heap \<Rightarrow> addr option \<Rightarrow> addr option \<Rightarrow> 'e error + bool" where
  "rw_less E T h x y =
     (case rw_get h x of
        Inl e \<Rightarrow> Inl e
      | Inr a \<Rightarrow> (case rw_get h y of Inl e \<Rightarrow> Inl e | Inr b \<Rightarrow> Inr (T_less E T a b)))"

text \<open>
  The wrapper named by \<open>item\<close> came to own, between the heaps \<open>h\<close> and \<open>h'\<close>, a cell
  that was not allocated in \<open>h\<close>.
\<close>

definition owns_fresh_allocation :: "'a heap \<Rightarrow> 'a heap \<Rightarrow> addr option \<Rightarrow> bool" where
  "owns_fresh_allocation h h' item =
     (case item of None \<Rightarrow> False | Some a \<Rightarrow> deref h a = None \<and> deref h' a \<noteq> None)"

subsection \<open>The operations of an alternative type\<close>

text \<open>
  What the variant calls on the object in its storage: the operation of \<open>T\<close> from the
  environment for an \<open>Obj T\<close>, the operation of \<open>recursive_wrapper<T>\<close> above for a
  \<open>Wrapper_obj T\<close>. Two operands whose types differ cannot come out of the same
  \<open>reinterpret_cast\<close>; the equations for them only make the functions total.
\<close>

text \<open>The copy constructor.\<close>

fun alt_copy_ctor ::
  "('t, 'a, 'e) type_env \<Rightarrow> ('t, 'a) obj \<Rightarrow> 'a heap \<Rightarrow> ('e error + ('t, 'a) obj) \<times> 'a heap" where
  "alt_copy_ctor E (Obj T x) h =
     (case T_copy_ctor E T x of Inl e \<Rightarrow> (Inl e, h) | Inr y \<Rightarrow> (Inr (Obj T y), h))"
| "alt_copy_ctor E (Wrapper_obj T p) h =
     (case rw_copy_ctor E T p h of
        (Inl e, h') \<Rightarrow> (Inl e, h')
      | (Inr q, h') \<Rightarrow> (Inr (Wrapper_obj T q), h'))"

text \<open>The move constructor (it must not throw): the new object, and the donor as it is left.\<close>

fun alt_move_ctor :: "('t, 'a, 'e) type_env \<Rightarrow> ('t, 'a) obj \<Rightarrow> ('t, 'a) obj \<times> ('t, 'a) obj" where
  "alt_move_ctor E (Obj T x) = (Obj T x, Obj T (T_moved_from E T x))"
| "alt_move_ctor E (Wrapper_obj T p) =
     (let (q, p') = rw_move_ctor p in (Wrapper_obj T q, Wrapper_obj T p'))"

text \<open>Copy assignment \<open>lhs = rhs\<close>: the outcome, \<open>lhs\<close> as it is left, the heap.\<close>

fun alt_copy_assign ::
  "('t, 'a, 'e) type_env \<Rightarrow> ('t, 'a) obj \<Rightarrow> ('t, 'a) obj \<Rightarrow> 'a heap
     \<Rightarrow> ('e error + unit) \<times> ('t, 'a) obj \<times> 'a heap" where
  "alt_copy_assign E (Obj T x) (Obj T' y) h =
     (if T = T' then (let (r, x') = T_copy_assign E T x y in (r, Obj T x', h))
      else (Inl Undefined_behaviour, Obj T x, h))"
| "alt_copy_assign E (Wrapper_obj T p) (Wrapper_obj T' q) h =
     (if T = T' then (let (r, h') = rw_copy_assign E T p q h in (r, Wrapper_obj T p, h'))
      else (Inl Undefined_behaviour, Wrapper_obj T p, h))"
| "alt_copy_assign E lhs rhs h = (Inl Undefined_behaviour, lhs, h)"

text \<open>Move assignment \<open>lhs = std::move(rhs)\<close> (it must not throw): \<open>lhs\<close>, \<open>rhs\<close>, the heap.\<close>

fun alt_move_assign ::
  "('t, 'a, 'e) type_env \<Rightarrow> ('t, 'a) obj \<Rightarrow> ('t, 'a) obj \<Rightarrow> 'a heap
     \<Rightarrow> 'e error + (('t, 'a) obj \<times> ('t, 'a) obj \<times> 'a heap)" where
  "alt_move_assign E (Obj T x) (Obj T' y) h =
     (if T = T' then Inr (Obj T y, Obj T (T_moved_from E T y), h) else Inl Undefined_behaviour)"
| "alt_move_assign E (Wrapper_obj T p) (Wrapper_obj T' q) h =
     (if T = T' then
        (case rw_move_assign p q h of
           Inl e \<Rightarrow> Inl e
         | Inr ((p', q'), h') \<Rightarrow> Inr (Wrapper_obj T p', Wrapper_obj T q', h'))
      else Inl Undefined_behaviour)"
| "alt_move_assign E lhs rhs h = Inl Undefined_behaviour"

text \<open>The destructor \<open>x.~T()\<close>.\<close>

fun alt_dtor :: "('t, 'a) obj \<Rightarrow> 'a heap \<Rightarrow> 'a heap" where
  "alt_dtor (Obj T x) h = h"
| "alt_dtor (Wrapper_obj T p) h = rw_dtor p h"

fun alt_eq ::
  "('t, 'a, 'e) type_env \<Rightarrow> 'a heap \<Rightarrow> ('t, 'a) obj \<Rightarrow> ('t, 'a) obj \<Rightarrow> 'e error + bool" where
  "alt_eq E h (Obj T x) (Obj T' y) =
     (if T = T' then Inr (T_equal E T x y) else Inl Undefined_behaviour)"
| "alt_eq E h (Wrapper_obj T p) (Wrapper_obj T' q) =
     (if T = T' then rw_eq E T h p q else Inl Undefined_behaviour)"
| "alt_eq E h x y = Inl Undefined_behaviour"

fun alt_less ::
  "('t, 'a, 'e) type_env \<Rightarrow> 'a heap \<Rightarrow> ('t, 'a) obj \<Rightarrow> ('t, 'a) obj \<Rightarrow> 'e error + bool" where
  "alt_less E h (Obj T x) (Obj T' y) =
     (if T = T' then Inr (T_less E T x y) else Inl Undefined_behaviour)"
| "alt_less E h (Wrapper_obj T p) (Wrapper_obj T' q) =
     (if T = T' then rw_less E T h p q else Inl Undefined_behaviour)"
| "alt_less E h x y = Inl Undefined_behaviour"

subsection \<open>The variant: storage and dispatch\<close>

text \<open>
  \<open>aligned_union_t<0, Ts...> storage; tag active;\<close> The storage holds the object that
  lives in it, or \<open>None\<close> when no object does (before a constructor has run, after
  \<open>destruct\<close>).
\<close>

record ('t, 'a) variant =
  storage :: "('t, 'a) obj option"
  active :: tag

text \<open>
  What a visitor is handed for one variant: the static type of the reference, and the
  object the reference denotes (\<open>None\<close>: no object of that type lives there).
\<close>

type_synonym ('t, 'a) arg = "'t ctype \<times> ('t, 'a) obj option"

text \<open>\<open>*reinterpret_cast<T*>(&storage)\<close>\<close>

definition reinterpret :: "'t ctype \<Rightarrow> ('t, 'a) obj option \<Rightarrow> ('t, 'a) obj option" where
  "reinterpret T st =
     (case st of None \<Rightarrow> None | Some x \<Rightarrow> if type_of x = T then Some x else None)"

text \<open>
  The four overloads of \<open>get_value\<close>: the object itself, but \<open>x.get()\<close> for a
  \<open>recursive_wrapper<T>\<close> when \<open>Internal\<close> is \<open>std::false_type\<close>.
\<close>

fun get_value :: "'a heap \<Rightarrow> ('t, 'a) arg \<Rightarrow> bool \<Rightarrow> 'e error + ('t, 'a) arg" where
  "get_value h (Plain T, x) internal = Inr (Plain T, x)"
| "get_value h (recursive_wrapper T, x) True = Inr (recursive_wrapper T, x)"
| "get_value h (recursive_wrapper T, x) False =
     (case x of
        Some (Wrapper_obj T' p) \<Rightarrow>
          (case rw_get h p of Inl e \<Rightarrow> Inl e | Inr y \<Rightarrow> Inr (Plain T, Some (Obj T y)))
      | _ \<Rightarrow> Inl Undefined_behaviour)"

text \<open>\<open>invoke<T>\<close>: \<open>visitor(get_value(*x, internal), args...)\<close>\<close>

definition invoke ::
  "'a heap \<Rightarrow> 't ctype \<Rightarrow> bool \<Rightarrow> ('t, 'a) obj option
     \<Rightarrow> (('t, 'a) arg list \<Rightarrow> 'e error + 'r) \<Rightarrow> ('t, 'a) arg list \<Rightarrow> 'e error + 'r" where
  "invoke h T internal st visitor args =
     (case get_value h (T, reinterpret T st) internal of
        Inl e \<Rightarrow> Inl e
      | Inr x \<Rightarrow> visitor (x # args))"

text \<open>
  \<open>visit_impl\<close>: the jump table \<open>callers\<close> has \<open>invoke<Ts>\<close> at every index, and the
  \<open>assert\<close> guards the index (as compiled without \<open>NDEBUG\<close>).
\<close>

definition visit_impl ::
  "'a heap \<Rightarrow> 't ctype list \<Rightarrow> tag \<Rightarrow> bool \<Rightarrow> ('t, 'a) obj option
     \<Rightarrow> (('t, 'a) arg list \<Rightarrow> 'e error + 'r) \<Rightarrow> ('t, 'a) arg list \<Rightarrow> 'e error + 'r" where
  "visit_impl h Ts which_active internal st visitor args =
     (if which_active < length Ts
      then invoke h (Ts ! which_active) internal st visitor args
      else Inl Assertion_failed)"

text \<open>\<open>variant::apply<Internal>(visitor, args...)\<close>\<close>

definition apply_v ::
  "'a heap \<Rightarrow> 't ctype list \<Rightarrow> ('t, 'a) variant \<Rightarrow> bool
     \<Rightarrow> (('t, 'a) arg list \<Rightarrow> 'e error + 'r) \<Rightarrow> ('t, 'a) arg list \<Rightarrow> 'e error + 'r" where
  "apply_v h Ts v internal visitor args =
     visit_impl h Ts (active v) internal (storage v) visitor args"

text \<open>\<open>apply_visitor_internal(v) { return apply<std::true_type>(v); }\<close>\<close>

definition apply_visitor_internal ::
  "'a heap \<Rightarrow> 't ctype list \<Rightarrow> ('t, 'a) variant
     \<Rightarrow> (('t, 'a) arg list \<Rightarrow> 'e error + 'r) \<Rightarrow> 'e error + 'r" where
  "apply_visitor_internal h Ts v visitor = apply_v h Ts v True visitor []"

text \<open>\<open>tag which() const { return active; }\<close>\<close>

definition which_v :: "('t, 'a) variant \<Rightarrow> tag" where
  "which_v v = active v"

subsection \<open>Construction and destruction\<close>

text \<open>
  \<open>construct(x)\<close> is \<open>new (&storage) type(std::forward<T>(x))\<close>: with an lvalue the
  copy constructor, with an rvalue the move constructor. Both return what the storage
  holds afterwards.
\<close>

definition construct_copy ::
  "('t, 'a, 'e) type_env \<Rightarrow> ('t, 'a) obj option \<Rightarrow> 'a heap
     \<Rightarrow> ('e error + ('t, 'a) obj option) \<times> 'a heap" where
  "construct_copy E x h =
     (case x of
        None \<Rightarrow> (Inl Undefined_behaviour, h)
      | Some y \<Rightarrow>
          (case alt_copy_ctor E y h of
             (Inl e, h') \<Rightarrow> (Inl e, h')
           | (Inr z, h') \<Rightarrow> (Inr (Some z), h')))"

text \<open>The storage, and the donor as it is left.\<close>

definition construct_move ::
  "('t, 'a, 'e) type_env \<Rightarrow> ('t, 'a) obj option
     \<Rightarrow> 'e error + (('t, 'a) obj option \<times> ('t, 'a) obj option)" where
  "construct_move E x =
     (case x of
        None \<Rightarrow> Inl Undefined_behaviour
      | Some y \<Rightarrow> (let (z, y') = alt_move_ctor E y in Inr (Some z, Some y')))"

text \<open>
  \<open>struct dtor\<close>: \<open>x.~T()\<close>. The visitor returns what it does to the heap; the
  lifetime of the object ends.
\<close>

definition dtor :: "('t, 'a) arg list \<Rightarrow> 'e error + ('a heap \<Rightarrow> 'a heap)" where
  "dtor xs =
     (case xs of
        [(T, Some x)] \<Rightarrow> Inr (alt_dtor x)
      | [(T, None)] \<Rightarrow> Inl Undefined_behaviour
      | _ \<Rightarrow> Inl Ill_formed)"

text \<open>\<open>void destruct() noexcept { apply_visitor_internal(dtor()); }\<close>\<close>

definition destruct ::
  "'t ctype list \<Rightarrow> ('t, 'a) variant \<Rightarrow> 'a heap \<Rightarrow> ('e error + unit) \<times> ('t, 'a) variant \<times> 'a heap" where
  "destruct Ts self h =
     (case apply_visitor_internal h Ts self dtor of
        Inl e \<Rightarrow> (Inl e, self, h)
      | Inr f \<Rightarrow> (Inr (), self\<lparr>storage := None\<rparr>, f h))"

text \<open>\<open>variant() noexcept { construct(front{}); active = tag{}; }\<close>\<close>

definition variant_default ::
  "('t, 'a, 'e) type_env \<Rightarrow> 't ctype list \<Rightarrow> 'e error + ('t, 'a) variant" where
  "variant_default E Ts =
     (case Ts of
        Plain T # _ \<Rightarrow> Inr \<lparr>storage = Some (Obj T (T_default E T)), active = 0\<rparr>
      | _ \<Rightarrow> Inl Ill_formed)"

text \<open>
  \<open>struct default_ctor\<close>: \<open>operator()(const T&) const { self.construct(T()); }\<close>, what
  the storage of \<open>self\<close> holds afterwards. \<open>recursive_wrapper\<close> has no default
  constructor.
\<close>

definition default_ctor ::
  "('t, 'a, 'e) type_env \<Rightarrow> ('t, 'a) arg list \<Rightarrow> 'e error + ('t, 'a) obj option" where
  "default_ctor E xs =
     (case xs of
        [(Plain T, x)] \<Rightarrow> Inr (Some (Obj T (T_default E T)))
      | _ \<Rightarrow> Inl Ill_formed)"

text \<open>
  \<open>variant(factory, tag t) : active(t) { apply<std::false_type>(default_ctor(*this)); }\<close>
  and \<open>static variant make(tag t) { return {factory{}, t}; }\<close>
\<close>

definition variant_factory ::
  "('t, 'a, 'e) type_env \<Rightarrow> 'a heap \<Rightarrow> 't ctype list \<Rightarrow> tag \<Rightarrow> 'e error + ('t, 'a) variant" where
  "variant_factory E h Ts t =
     (let self = \<lparr>storage = None, active = t\<rparr>
      in case apply_v h Ts self False (default_ctor E) [] of
           Inl e \<Rightarrow> Inl e
         | Inr st \<Rightarrow> Inr (self\<lparr>storage := st\<rparr>))"

definition make ::
  "('t, 'a, 'e) type_env \<Rightarrow> 'a heap \<Rightarrow> 't ctype list \<Rightarrow> tag \<Rightarrow> 'e error + ('t, 'a) variant" where
  "make E h Ts t = variant_factory E h Ts t"

subsection \<open>Construction from a value\<close>

text \<open>
  \<open>initializer<TT, T, Tail...>\<close> derives from \<open>initializer<TT + 1, Tail...>\<close> and brings
  its \<open>initialize\<close> into scope with \<open>using base::initialize\<close>; it declares
  \<open>initialize(variant&, T&&)\<close> and \<open>initialize(variant&, const T&)\<close>, which both set
  \<open>active\<close> to \<open>TT\<close>. A member of the derived class hides the members of the base with
  the same parameter types, and the \<open>using\<close> does not bring those in: where a type is
  declared more than once, only the \<open>initialize\<close> of its first declaration is in the
  overload set. The overload set of \<open>initializer<0, Ts...>\<close> is the list of the parameter
  types with the tag each one sets; the \<open>initialize()\<close> of \<open>initializer<TT>\<close> takes no
  argument and is never a candidate.
\<close>

fun initializer :: "nat \<Rightarrow> 't ctype list \<Rightarrow> ('t ctype \<times> tag) list" where
  "initializer TT [] = []"
| "initializer TT (T # Tail) = (T, TT) # filter (\<lambda>c. fst c \<noteq> T) (initializer (TT + 1) Tail)"

text \<open>
  The rank of the implicit conversion of an argument of type \<open>S\<close> to a parameter
  \<open>const U&\<close> or \<open>U&&\<close>: the identity for \<open>U = S\<close>, which is better than any other;
  for a \<open>recursive_wrapper<T>\<close> there is one only if \<open>std::is_convertible<S, T>\<close>, by the
  \<open>enable_if_t\<close> of its converting constructors.
\<close>

fun conversion_rank :: "('t, 'a, 'e) type_env \<Rightarrow> 't \<Rightarrow> 't ctype \<Rightarrow> nat option" where
  "conversion_rank E S (Plain T) =
     (if T = S then Some 0 else map_option Suc (T_rank E S (Plain T)))"
| "conversion_rank E S (recursive_wrapper T) =
     (if T = S \<or> T_rank E S (Plain T) \<noteq> None
      then map_option Suc (T_rank E S (recursive_wrapper T)) else None)"

text \<open>One conversion is strictly better than another; no conversion is worse than any.\<close>

fun better :: "nat option \<Rightarrow> nat option \<Rightarrow> bool" where
  "better None r' = False"
| "better (Some r) None = True"
| "better (Some r) (Some r') = (r < r')"

text \<open>
  Overload resolution of the call \<open>initialize(*this, std::forward<T>(x))\<close>: the viable
  candidates are those with a conversion, and the call compiles when one of them is
  better than every other.
\<close>

definition viable ::
  "('t, 'a, 'e) type_env \<Rightarrow> 't \<Rightarrow> ('t ctype \<times> tag) list \<Rightarrow> ('t ctype \<times> tag) list" where
  "viable E S cands = filter (\<lambda>c. conversion_rank E S (fst c) \<noteq> None) cands"

definition resolve ::
  "('t, 'a, 'e) type_env \<Rightarrow> 't \<Rightarrow> ('t ctype \<times> tag) list \<Rightarrow> 'e error + ('t ctype \<times> tag)" where
  "resolve E S cands =
     (case filter (\<lambda>c. list_all (\<lambda>c'. c' = c \<or>
                      better (conversion_rank E S (fst c)) (conversion_rank E S (fst c')))
                    (viable E S cands))
             (viable E S cands) of
        [c] \<Rightarrow> Inr c
      | _ \<Rightarrow> Inl Ill_formed)"

text \<open>The temporary of type \<open>U\<close> that the implicit conversion makes of \<open>x\<close>.\<close>

definition converted ::
  "('t, 'a, 'e) type_env \<Rightarrow> 't ctype \<Rightarrow> 't \<Rightarrow> category \<Rightarrow> 'a \<Rightarrow> 'a heap
     \<Rightarrow> ('e error + ('t, 'a) obj) \<times> 'a heap" where
  "converted E U S cat x h =
     (case U of
        Plain T \<Rightarrow> (Inr (Obj T (T_convert E S T x)), h)
      | recursive_wrapper T \<Rightarrow>
          (case rw_ctor E T S cat x h of
             (Inl e, h') \<Rightarrow> (Inl e, h')
           | (Inr p, h') \<Rightarrow> (Inr (Wrapper_obj T p), h')))"

text \<open>
  The chosen \<open>initialize\<close>, with parameter type \<open>U\<close> and tag \<open>TT\<close>:
  \<open>initialize(variant& v, const T& x) { v.construct(x); v.active = static_cast<tag>(TT); }\<close>
  for an lvalue of type \<open>U\<close>,
  \<open>initialize(variant& v, T&& x) { v.construct(std::move(x)); v.active = static_cast<tag>(TT); }\<close>
  for an rvalue of type \<open>U\<close> and for the temporary of a conversion, which is destroyed
  afterwards.
\<close>

definition initialize ::
  "('t, 'a, 'e) type_env \<Rightarrow> 't ctype \<Rightarrow> tag \<Rightarrow> 't \<Rightarrow> category \<Rightarrow> 'a \<Rightarrow> 'a heap
     \<Rightarrow> ('e error + ('t, 'a) variant) \<times> 'a heap" where
  "initialize E U TT S cat x h =
     (if U = Plain S then
        (case cat of
           Lvalue \<Rightarrow>
             (case construct_copy E (Some (Obj S x)) h of
                (Inl e, h') \<Rightarrow> (Inl e, h')
              | (Inr st, h') \<Rightarrow> (Inr \<lparr>storage = st, active = TT\<rparr>, h'))
         | Rvalue \<Rightarrow>
             (case construct_move E (Some (Obj S x)) of
                Inl e \<Rightarrow> (Inl e, h)
              | Inr (st, x') \<Rightarrow> (Inr \<lparr>storage = st, active = TT\<rparr>, h)))
      else
        (case converted E U S cat x h of
           (Inl e, h') \<Rightarrow> (Inl e, h')
         | (Inr tmp, h') \<Rightarrow>
             (case construct_move E (Some tmp) of
                Inl e \<Rightarrow> (Inl e, h')
              | Inr (st, tmp') \<Rightarrow>
                  (Inr \<lparr>storage = st, active = TT\<rparr>,
                   (case tmp' of None \<Rightarrow> h' | Some t \<Rightarrow> alt_dtor t h')))))"

text \<open>
  \<open>template <typename T, ...> variant(T&& x) { initializer<0, Ts...>::initialize(*this, std::forward<T>(x)); }\<close>
  for an argument \<open>x\<close> of a type \<open>S\<close> of the instantiating program.
\<close>

definition variant_from_value ::
  "('t, 'a, 'e) type_env \<Rightarrow> 't ctype list \<Rightarrow> 't \<Rightarrow> category \<Rightarrow> 'a \<Rightarrow> 'a heap
     \<Rightarrow> ('e error + ('t, 'a) variant) \<times> 'a heap" where
  "variant_from_value E Ts S cat x h =
     (case resolve E S (initializer 0 Ts) of
        Inl e \<Rightarrow> (Inl e, h)
      | Inr (U, TT) \<Rightarrow> initialize E U TT S cat x h)"

subsection \<open>Copy and move\<close>

text \<open>\<open>struct copy_ctor\<close>: \<open>operator()(const T& other) const { self.construct(other); }\<close>\<close>

definition copy_ctor ::
  "('t, 'a, 'e) type_env \<Rightarrow> ('t, 'a) arg list
     \<Rightarrow> 'e error + ('a heap \<Rightarrow> ('e error + ('t, 'a) obj option) \<times> 'a heap)" where
  "copy_ctor E xs =
     (case xs of [(T, other)] \<Rightarrow> Inr (construct_copy E other) | _ \<Rightarrow> Inl Ill_formed)"

text \<open>
  \<open>variant(const variant& other) { other.apply_visitor_internal(copy_ctor(*this)); active = other.active; }\<close>
\<close>

definition variant_copy ::
  "('t, 'a, 'e) type_env \<Rightarrow> 't ctype list \<Rightarrow> ('t, 'a) variant \<Rightarrow> 'a heap
     \<Rightarrow> ('e error + ('t, 'a) variant) \<times> 'a heap" where
  "variant_copy E Ts other h =
     (case apply_visitor_internal h Ts other (copy_ctor E) of
        Inl e \<Rightarrow> (Inl e, h)
      | Inr f \<Rightarrow>
          (case f h of
             (Inl e, h') \<Rightarrow> (Inl e, h')
           | (Inr st, h') \<Rightarrow> (Inr \<lparr>storage = st, active = active other\<rparr>, h')))"

text \<open>\<open>struct move_ctor\<close>: \<open>operator()(T& rhs) const noexcept { self.construct(std::move(rhs)); }\<close>\<close>

definition move_ctor ::
  "('t, 'a, 'e) type_env \<Rightarrow> ('t, 'a) arg list
     \<Rightarrow> 'e error + (('t, 'a) obj option \<times> ('t, 'a) obj option)" where
  "move_ctor E xs =
     (case xs of [(T, rhs)] \<Rightarrow> construct_move E rhs | _ \<Rightarrow> Inl Ill_formed)"

text \<open>
  \<open>variant(variant&& other) noexcept { other.apply_visitor_internal(move_ctor(*this)); active = other.active; }\<close>:
  the new variant, and \<open>other\<close> as it is left.
\<close>

definition variant_move ::
  "('t, 'a, 'e) type_env \<Rightarrow> 'a heap \<Rightarrow> 't ctype list \<Rightarrow> ('t, 'a) variant
     \<Rightarrow> 'e error + (('t, 'a) variant \<times> ('t, 'a) variant)" where
  "variant_move E h Ts other =
     (case apply_visitor_internal h Ts other (move_ctor E) of
        Inl e \<Rightarrow> Inl e
      | Inr (st, other_st) \<Rightarrow>
          Inr (\<lparr>storage = st, active = active other\<rparr>, other\<lparr>storage := other_st\<rparr>))"

text \<open>
  \<open>struct assigner\<close>, the visitor of copy assignment, applied to the active object of
  the right-hand side:
  \<^verbatim>\<open>
  if ( self.active == rhs_active )
      *reinterpret_cast<Rhs*>(&self.storage) = rhs;
  else
      {
      Rhs tmp(rhs);
      self.destruct();
      self.construct(std::move(tmp));
      }\<close>
  It returns the outcome, \<open>self\<close> and the heap as they are left; \<open>tmp\<close> is destroyed
  at the end of its block.
\<close>

definition assigner ::
  "('t, 'a, 'e) type_env \<Rightarrow> 't ctype list \<Rightarrow> ('t, 'a) variant \<Rightarrow> tag \<Rightarrow> ('t, 'a) arg list
     \<Rightarrow> 'e error + ('a heap \<Rightarrow> ('e error + unit) \<times> ('t, 'a) variant \<times> 'a heap)" where
  "assigner E Ts self rhs_active xs =
     (case xs of
        [(Rhs, rhs)] \<Rightarrow> Inr (\<lambda>h.
          if active self = rhs_active then
            (case (reinterpret Rhs (storage self), rhs) of
               (Some l, Some r) \<Rightarrow>
                 (let (res, l', h') = alt_copy_assign E l r h
                  in (res, self\<lparr>storage := Some l'\<rparr>, h'))
             | _ \<Rightarrow> (Inl Undefined_behaviour, self, h))
          else
            (case rhs of
               None \<Rightarrow> (Inl Undefined_behaviour, self, h)
             | Some r \<Rightarrow>
                 (case alt_copy_ctor E r h of
                    (Inl e, h1) \<Rightarrow> (Inl e, self, h1)
                  | (Inr tmp, h1) \<Rightarrow>
                      (case destruct Ts self h1 of
                         (Inl e, self1, h2) \<Rightarrow> (Inl e, self1, h2)
                       | (Inr u, self1, h2) \<Rightarrow>
                           (case construct_move E (Some tmp) of
                              Inl e \<Rightarrow> (Inl e, self1, h2)
                            | Inr (st, tmp') \<Rightarrow>
                                (Inr (), self1\<lparr>storage := st\<rparr>,
                                 (case tmp' of None \<Rightarrow> h2 | Some t \<Rightarrow> alt_dtor t h2)))))))
      | _ \<Rightarrow> Inl Ill_formed)"

text \<open>
  \<open>variant& operator=(const variant& rhs)\<close>:
  \<open>rhs.apply_visitor_internal(assigner(*this, rhs.active)); active = rhs.active; return *this;\<close>
  An exception leaves the function before \<open>active\<close> is assigned.
\<close>

definition copy_assign ::
  "('t, 'a, 'e) type_env \<Rightarrow> 't ctype list \<Rightarrow> ('t, 'a) variant \<Rightarrow> ('t, 'a) variant \<Rightarrow> 'a heap
     \<Rightarrow> ('e error + unit) \<times> ('t, 'a) variant \<times> 'a heap" where
  "copy_assign E Ts self rhs h =
     (case apply_visitor_internal h Ts rhs (assigner E Ts self (active rhs)) of
        Inl e \<Rightarrow> (Inl e, self, h)
      | Inr f \<Rightarrow>
          (case f h of
             (Inl e, self', h') \<Rightarrow> (Inl e, self', h')
           | (Inr u, self', h') \<Rightarrow> (Inr (), self'\<lparr>active := active rhs\<rparr>, h')))"

text \<open>
  \<open>struct move_assigner\<close>:
  \<^verbatim>\<open>
  if ( self.active == rhs_active )
      *reinterpret_cast<rhs_type*>(&self.storage) = std::move(rhs);
  else
      {
      self.destruct();
      self.construct(std::move(rhs));
      }\<close>
  It returns the outcome, \<open>self\<close>, the object of the right-hand side and the heap as
  they are left. Its \<open>operator()\<close> begins with three \<open>static_assert\<close>s on \<open>rhs_type\<close>:
  \<open>is_nothrow_destructible\<close>, \<open>is_nothrow_move_assignable\<close> and
  \<open>is_nothrow_move_constructible\<close>. The types of the environment meet them (their
  destructor and their moves are total here), and so do the destructor and the move
  constructor of \<open>recursive_wrapper\<close>; but \<open>operator=(recursive_wrapper&&)\<close> is not
  declared \<open>noexcept\<close>, so the second one fails for a \<open>recursive_wrapper<T>\<close>.
\<close>

definition is_nothrow_move_assignable :: "'t ctype \<Rightarrow> bool" where
  "is_nothrow_move_assignable T = (case T of Plain U \<Rightarrow> True | recursive_wrapper U \<Rightarrow> False)"

definition move_assigner ::
  "('t, 'a, 'e) type_env \<Rightarrow> 't ctype list \<Rightarrow> ('t, 'a) variant \<Rightarrow> tag \<Rightarrow> ('t, 'a) arg list
     \<Rightarrow> 'e error + ('a heap \<Rightarrow> ('e error + unit) \<times> ('t, 'a) variant \<times> ('t, 'a) obj option \<times> 'a heap)" where
  "move_assigner E Ts self rhs_active xs =
     (case xs of
        [(Rhs, rhs)] \<Rightarrow>
          if is_nothrow_move_assignable Rhs then Inr (\<lambda>h.
            if active self = rhs_active then
              (case (reinterpret Rhs (storage self), rhs) of
                 (Some l, Some r) \<Rightarrow>
                   (case alt_move_assign E l r h of
                      Inl e \<Rightarrow> (Inl e, self, rhs, h)
                    | Inr (l', r', h') \<Rightarrow> (Inr (), self\<lparr>storage := Some l'\<rparr>, Some r', h'))
               | _ \<Rightarrow> (Inl Undefined_behaviour, self, rhs, h))
            else
              (case destruct Ts self h of
                 (Inl e, self1, h1) \<Rightarrow> (Inl e, self1, rhs, h1)
               | (Inr u, self1, h1) \<Rightarrow>
                   (case construct_move E rhs of
                      Inl e \<Rightarrow> (Inl e, self1, rhs, h1)
                    | Inr (st, rhs') \<Rightarrow> (Inr (), self1\<lparr>storage := st\<rparr>, rhs', h1))))
          else Inl Ill_formed
      | _ \<Rightarrow> Inl Ill_formed)"

text \<open>
  \<open>variant& operator=(variant&& rhs) noexcept\<close>:
  \<open>rhs.apply_visitor_internal(move_assigner(*this, rhs.active)); active = rhs.active; return *this;\<close>
  It returns the outcome, \<open>self\<close>, \<open>rhs\<close> and the heap as they are left. The jump table
  of \<open>visit_impl\<close> takes the address of \<open>invoke<T, ...>\<close> for every alternative \<open>T\<close>, so
  the \<open>operator()\<close> of \<open>move_assigner\<close> is instantiated for every alternative, whichever
  is active: with a \<open>recursive_wrapper\<close> among the alternatives this operator does not
  compile.
\<close>

definition move_assign ::
  "('t, 'a, 'e) type_env \<Rightarrow> 't ctype list \<Rightarrow> ('t, 'a) variant \<Rightarrow> ('t, 'a) variant \<Rightarrow> 'a heap
     \<Rightarrow> ('e error + unit) \<times> ('t, 'a) variant \<times> ('t, 'a) variant \<times> 'a heap" where
  "move_assign E Ts self rhs h =
     (if list_all is_nothrow_move_assignable Ts then
        (case apply_visitor_internal h Ts rhs (move_assigner E Ts self (active rhs)) of
           Inl e \<Rightarrow> (Inl e, self, rhs, h)
         | Inr f \<Rightarrow>
             (case f h of
                (Inl e, self', rhs_st, h') \<Rightarrow> (Inl e, self', rhs\<lparr>storage := rhs_st\<rparr>, h')
              | (Inr u, self', rhs_st, h') \<Rightarrow>
                  (Inr (), self'\<lparr>active := active rhs\<rparr>, rhs\<lparr>storage := rhs_st\<rparr>, h')))
      else (Inl Ill_formed, self, rhs, h))"

subsection \<open>Comparison\<close>

text \<open>
  \<open>struct equals\<close>:
  \<open>operator()(const Rhs& rhs) const { return *reinterpret_cast<const Rhs*>(&self.storage) == rhs; }\<close>
\<close>

definition equals ::
  "('t, 'a, 'e) type_env \<Rightarrow> 'a heap \<Rightarrow> ('t, 'a) variant \<Rightarrow> ('t, 'a) arg list \<Rightarrow> 'e error + bool" where
  "equals E h self xs =
     (case xs of
        [(Rhs, rhs)] \<Rightarrow>
          (case (reinterpret Rhs (storage self), rhs) of
             (Some l, Some r) \<Rightarrow> alt_eq E h l r
           | _ \<Rightarrow> Inl Undefined_behaviour)
      | _ \<Rightarrow> Inl Ill_formed)"

text \<open>\<open>struct less_than\<close>, the same with \<open><\<close>.\<close>

definition less_than ::
  "('t, 'a, 'e) type_env \<Rightarrow> 'a heap \<Rightarrow> ('t, 'a) variant \<Rightarrow> ('t, 'a) arg list \<Rightarrow> 'e error + bool" where
  "less_than E h self xs =
     (case xs of
        [(Rhs, rhs)] \<Rightarrow>
          (case (reinterpret Rhs (storage self), rhs) of
             (Some l, Some r) \<Rightarrow> alt_less E h l r
           | _ \<Rightarrow> Inl Undefined_behaviour)
      | _ \<Rightarrow> Inl Ill_formed)"

text \<open>
  \<open>operator==(x, y) { return x.active == y.active && y.apply_visitor_internal(equals{x}); }\<close>
\<close>

definition op_eq ::
  "('t, 'a, 'e) type_env \<Rightarrow> 'a heap \<Rightarrow> 't ctype list \<Rightarrow> ('t, 'a) variant \<Rightarrow> ('t, 'a) variant
     \<Rightarrow> 'e error + bool" where
  "op_eq E h Ts x y =
     (if active x = active y then apply_visitor_internal h Ts y (equals E h x) else Inr False)"

text \<open>
  \<^verbatim>\<open>
  if ( x.active == y.active )
      return y.apply_visitor_internal(less_than{x});
  else
      return x.active < y.active;\<close>
\<close>

definition op_less ::
  "('t, 'a, 'e) type_env \<Rightarrow> 'a heap \<Rightarrow> 't ctype list \<Rightarrow> ('t, 'a) variant \<Rightarrow> ('t, 'a) variant
     \<Rightarrow> 'e error + bool" where
  "op_less E h Ts x y =
     (if active x = active y then apply_visitor_internal h Ts y (less_than E h x)
      else Inr (active x < active y))"

text \<open>
  Modelled from the spec: \<open>broker/util/operators.hh\<close>, which declares
  \<open>totally_ordered\<close>, is not among the sources. The spec has it ``supply
  \<open><=\<close>, \<open>>\<close>, \<open>>=\<close>, \<open>!=\<close> from a type's own \<open>==\<close> and \<open><\<close>''.
\<close>

definition negate :: "'e error + bool \<Rightarrow> 'e error + bool" where
  "negate r = (case r of Inl e \<Rightarrow> Inl e | Inr b \<Rightarrow> Inr (\<not> b))"

definition op_neq ::
  "('t, 'a, 'e) type_env \<Rightarrow> 'a heap \<Rightarrow> 't ctype list \<Rightarrow> ('t, 'a) variant \<Rightarrow> ('t, 'a) variant
     \<Rightarrow> 'e error + bool" where
  "op_neq E h Ts x y = negate (op_eq E h Ts x y)"

definition op_greater ::
  "('t, 'a, 'e) type_env \<Rightarrow> 'a heap \<Rightarrow> 't ctype list \<Rightarrow> ('t, 'a) variant \<Rightarrow> ('t, 'a) variant
     \<Rightarrow> 'e error + bool" where
  "op_greater E h Ts x y = op_less E h Ts y x"

definition op_less_eq ::
  "('t, 'a, 'e) type_env \<Rightarrow> 'a heap \<Rightarrow> 't ctype list \<Rightarrow> ('t, 'a) variant \<Rightarrow> ('t, 'a) variant
     \<Rightarrow> 'e error + bool" where
  "op_less_eq E h Ts x y = negate (op_less E h Ts y x)"

definition op_greater_eq ::
  "('t, 'a, 'e) type_env \<Rightarrow> 'a heap \<Rightarrow> 't ctype list \<Rightarrow> ('t, 'a) variant \<Rightarrow> ('t, 'a) variant
     \<Rightarrow> 'e error + bool" where
  "op_greater_eq E h Ts x y = negate (op_less E h Ts x y)"

subsection \<open>Visitation from outside\<close>

text \<open>A visitable: a variant with the alternative types of its type.\<close>

type_synonym ('t, 'a) visitable = "'t ctype list \<times> ('t, 'a) variant"

text \<open>
  \<open>detail::binary_visitor\<close>:
  \<open>operator()(Ts&&... xs) { return visitable.template apply<std::false_type>(visitor, std::forward<Ts>(xs)...); }\<close>
\<close>

definition binary_visitor ::
  "'a heap \<Rightarrow> (('t, 'a) arg list \<Rightarrow> 'e error + 'r) \<Rightarrow> ('t, 'a) visitable
     \<Rightarrow> ('t, 'a) arg list \<Rightarrow> 'e error + 'r" where
  "binary_visitor h visitor visitable xs =
     apply_v h (fst visitable) (snd visitable) False visitor xs"

text \<open>
  \<open>apply_visitor(visitor, visitable)\<close> is \<open>visitable.apply<std::false_type>(visitor)\<close>, and
  \<open>apply_visitor(visitor, v, vs...)\<close> is
  \<open>apply_visitor(detail::binary_visitor<Visitor, V>(visitor, v), vs...)\<close>.
\<close>

fun apply_visitor ::
  "'a heap \<Rightarrow> (('t, 'a) arg list \<Rightarrow> 'e error + 'r) \<Rightarrow> ('t, 'a) visitable
     \<Rightarrow> ('t, 'a) visitable list \<Rightarrow> 'e error + 'r" where
  "apply_visitor h visitor visitable [] =
     apply_v h (fst visitable) (snd visitable) False visitor []"
| "apply_visitor h visitor v (w # vs) = apply_visitor h (binary_visitor h visitor v) w vs"

text \<open>\<open>expose(v) { return v; }\<close>\<close>

definition expose :: "('t, 'a) visitable \<Rightarrow> ('t, 'a) visitable" where
  "expose v = v"

text \<open>\<open>visit(v, vs...) { return apply_visitor(std::forward<Visitor>(v), expose(vs)...); }\<close>\<close>

definition visit ::
  "'a heap \<Rightarrow> (('t, 'a) arg list \<Rightarrow> 'e error + 'r) \<Rightarrow> ('t, 'a) visitable
     \<Rightarrow> ('t, 'a) visitable list \<Rightarrow> 'e error + 'r" where
  "visit h v w ws = apply_visitor h v (expose w) (map expose ws)"

text \<open>
  \<open>detail::getter<T>\<close>: \<open>operator()(T& val)\<close> returns \<open>&val\<close>, the template
  \<open>operator()(const U& u)\<close> returns \<open>nullptr\<close>. A pointer is \<open>None\<close> when null, and
  otherwise what it points to.
\<close>

definition getter :: "'t ctype \<Rightarrow> ('t, 'a) arg list \<Rightarrow> 'e error + ('t, 'a) arg option" where
  "getter T xs =
     (case xs of
        [(U, val)] \<Rightarrow> if U = T then Inr (Some (U, val)) else Inr None
      | _ \<Rightarrow> Inl Ill_formed)"

text \<open>\<open>get(v) { return apply_visitor(detail::getter<T>{}, expose(v)); }\<close>\<close>

definition get :: "'t ctype \<Rightarrow> 'a heap \<Rightarrow> ('t, 'a) visitable \<Rightarrow> 'e error + ('t, 'a) arg option" where
  "get T h v = apply_visitor h (getter T) (expose v) []"

text \<open>\<open>is(v) { return get<T>(v) != nullptr; }\<close>\<close>

definition is_a :: "'t ctype \<Rightarrow> 'a heap \<Rightarrow> ('t, 'a) visitable \<Rightarrow> 'e error + bool" where
  "is_a T h v = (case get T h v of Inl e \<Rightarrow> Inl e | Inr p \<Rightarrow> Inr (p \<noteq> None))"

text \<open>\<open>which(v) { return expose(v).which(); }\<close>\<close>

definition which :: "('t, 'a) visitable \<Rightarrow> tag" where
  "which v = which_v (snd (expose v))"

text \<open>
  \<open>detail::hasher\<close>: \<open>operator()(const T& x) const { return std::hash<T>{}(x); }\<close>. The
  standard library has no \<open>std::hash\<close> of a \<open>recursive_wrapper\<close>.
\<close>

definition hasher :: "('t, 'a, 'e) type_env \<Rightarrow> ('t, 'a) arg list \<Rightarrow> 'e error + nat" where
  "hasher E xs =
     (case xs of
        [(Plain T, x)] \<Rightarrow>
          (case x of Some (Obj T' y) \<Rightarrow> Inr (T_hash E T y) | _ \<Rightarrow> Inl Undefined_behaviour)
      | _ \<Rightarrow> Inl Ill_formed)"

text \<open>
  \<open>std::hash<variant<Tag, Ts...>>\<close>:
  \<open>operator()(const argument_type& v) const { return visit(detail::hasher{}, v); }\<close>
\<close>

definition hash_variant ::
  "('t, 'a, 'e) type_env \<Rightarrow> 'a heap \<Rightarrow> ('t, 'a) visitable \<Rightarrow> 'e error + nat" where
  "hash_variant E h v = visit h (hasher E) v []"

subsection \<open>The invariant of the data model\<close>

text \<open>
  A variant of type \<open>variant<Tag, Ts...>\<close> is well formed in a heap: its discriminator
  is in range, its storage holds an object of the alternative it names, and a wrapper
  there owns a cell of the heap.
\<close>

fun wf_obj :: "'a heap \<Rightarrow> ('t, 'a) obj \<Rightarrow> bool" where
  "wf_obj h (Obj T x) = True"
| "wf_obj h (Wrapper_obj T p) = (case p of None \<Rightarrow> False | Some a \<Rightarrow> deref h a \<noteq> None)"

definition wf_variant :: "'a heap \<Rightarrow> 't ctype list \<Rightarrow> ('t, 'a) variant \<Rightarrow> bool" where
  "wf_variant h Ts v =
     (active v < length Ts \<and>
      (case storage v of None \<Rightarrow> False | Some x \<Rightarrow> type_of x = Ts ! active v \<and> wf_obj h x))"

text \<open>
  The active value as a client sees it: the type \<open>T\<close> and the value of the object, the
  wrapped one for a \<open>recursive_wrapper<T>\<close>.
\<close>

fun value_of :: "'a heap \<Rightarrow> ('t, 'a) obj \<Rightarrow> ('t \<times> 'a) option" where
  "value_of h (Obj T x) = Some (T, x)"
| "value_of h (Wrapper_obj T p) =
     (case p of None \<Rightarrow> None | Some a \<Rightarrow> map_option (Pair T) (deref h a))"

definition active_value :: "'a heap \<Rightarrow> ('t, 'a) variant \<Rightarrow> ('t \<times> 'a) option" where
  "active_value h v = (case storage v of None \<Rightarrow> None | Some x \<Rightarrow> value_of h x)"

text \<open>The wrapper named by \<open>item\<close> owns a cell that holds \<open>x\<close>.\<close>

definition holds :: "'a heap \<Rightarrow> addr option \<Rightarrow> 'a \<Rightarrow> bool" where
  "holds h item x = (case item of None \<Rightarrow> False | Some a \<Rightarrow> deref h a = Some x)"

subsection \<open>The scenario of the spec\<close>

text \<open>
  The alternative set \<open>{Bool, Int, Text}\<close> of the spec with the discriminators
  \<open>Bool = 0\<close>, \<open>Int = 1\<close>, \<open>Text = 2\<close>, and a type \<open>Node\<close> that is held through a
  \<open>recursive_wrapper\<close>. The values are integers; copying a negative \<open>Text\<close> raises;
  a \<open>Bool\<close> converts to an \<open>Int\<close> and, worse, an \<open>Int\<close> to a \<open>Bool\<close>.
\<close>

datatype tyname = Bool_t | Int_t | Text_t | Node_t

datatype exn = Bad_alloc

definition E0 :: "(tyname, int, exn) type_env" where
  "E0 = \<lparr>T_default = (\<lambda>T. 0),
         T_copy_throws = (\<lambda>T x. if T = Text_t \<and> x < 0 then Some Bad_alloc else None),
         T_assign_throws = (\<lambda>T l r. None),
         T_assign_residue = (\<lambda>T l r. l),
         T_moved_from = (\<lambda>T x. 0),
         T_equal = (\<lambda>T x y. x = y),
         T_less = (\<lambda>T x y. x < y),
         T_hash = (\<lambda>T x. nat \<bar>x\<bar>),
         T_rank = (\<lambda>S U. case U of
                      Plain T \<Rightarrow> if S = Bool_t \<and> T = Int_t then Some 0
                                 else if S = Int_t \<and> T = Bool_t then Some 1 else None
                    | recursive_wrapper T \<Rightarrow> Some 2),
         T_convert = (\<lambda>S T x. x)\<rparr>"

definition Ts0 :: "tyname ctype list" where
  "Ts0 = [Plain Bool_t, Plain Int_t, Plain Text_t, recursive_wrapper Node_t]"

text \<open>A visitor that answers with the parameter types of the overload that was invoked.\<close>

definition overload_name :: "(tyname, int) arg list \<Rightarrow> exn error + tyname ctype list" where
  "overload_name xs = Inr (map fst xs)"

text \<open>A variant whose storage holds a \<open>T\<close>, and one whose storage holds a wrapper of cell \<open>a\<close>.\<close>

definition holding :: "tag \<Rightarrow> tyname \<Rightarrow> int \<Rightarrow> (tyname, int) variant" where
  "holding i T x = \<lparr>storage = Some (Obj T x), active = i\<rparr>"

definition boxed :: "tag \<Rightarrow> tyname \<Rightarrow> addr \<Rightarrow> (tyname, int) variant" where
  "boxed i T a = \<lparr>storage = Some (Wrapper_obj T (Some a)), active = i\<rparr>"

definition Ts3 :: "tyname ctype list" where
  "Ts3 = [Plain Bool_t, Plain Int_t, Plain Text_t]"

subsection \<open>The vocabulary of the properties\<close>

text \<open>
  The own \<open>==\<close> and \<open><\<close> of a type \<open>T\<close> are a strict total order: \<open><\<close> is
  irreflexive and transitive, of two values one is less or they are equal, and equal
  values are not less.
\<close>

definition strict_total_order :: "('t, 'a, 'e) type_env \<Rightarrow> 't \<Rightarrow> bool" where
  "strict_total_order E T =
     ((\<forall>a. \<not> T_less E T a a) \<and>
      (\<forall>a b c. T_less E T a b \<and> T_less E T b c \<longrightarrow> T_less E T a c) \<and>
      (\<forall>a b. T_less E T a b \<or> T_equal E T a b \<or> T_less E T b a) \<and>
      (\<forall>a b. T_equal E T a b \<longrightarrow> \<not> T_less E T a b \<and> \<not> T_less E T b a))"

text \<open>The argument a visitor receives for an active value \<open>x\<close> of type \<open>T\<close>.\<close>

definition concrete :: "'t \<times> 'a \<Rightarrow> ('t, 'a) arg" where
  "concrete tv = (Plain (fst tv), Some (Obj (fst tv) (snd tv)))"

text \<open>
  The argument of type \<open>S\<close> converts to the alternative at index \<open>i\<close>, that conversion
  is strictly better than the one to any alternative of another type, and \<open>i\<close> is where
  that type is first declared.
\<close>

definition best_conversion ::
  "('t, 'a, 'e) type_env \<Rightarrow> 't \<Rightarrow> 't ctype list \<Rightarrow> nat \<Rightarrow> bool" where
  "best_conversion E S Ts i =
     (i < length Ts \<and> conversion_rank E S (Ts ! i) \<noteq> None \<and>
      list_all (\<lambda>j. Ts ! j \<noteq> Ts ! i) [0..<i] \<and>
      list_all (\<lambda>j. Ts ! j = Ts ! i \<or>
                    better (conversion_rank E S (Ts ! i)) (conversion_rank E S (Ts ! j)))
        [0..<length Ts])"

text \<open>
  The spec's words for the choice of the alternative, read literally: the first
  alternative, in declaration order, to which the argument converts.
\<close>

definition first_convertible ::
  "('t, 'a, 'e) type_env \<Rightarrow> 't \<Rightarrow> 't ctype list \<Rightarrow> nat option" where
  "first_convertible E S Ts = find (\<lambda>i. conversion_rank E S (Ts ! i) \<noteq> None) [0..<length Ts]"

section \<open>Facts\<close>

subsection \<open>The scenario\<close>

lemma E0_simps [simp]:
  "T_default E0 = (\<lambda>T. 0)"
  "T_copy_throws E0 = (\<lambda>T x. if T = Text_t \<and> x < 0 then Some Bad_alloc else None)"
  "T_assign_throws E0 = (\<lambda>T l r. None)"
  "T_assign_residue E0 = (\<lambda>T l r. l)"
  "T_moved_from E0 = (\<lambda>T x. 0)"
  "T_equal E0 = (\<lambda>T x y. x = y)"
  "T_less E0 = (\<lambda>T x y. x < y)"
  "T_hash E0 = (\<lambda>T x. nat \<bar>x\<bar>)"
  "T_convert E0 = (\<lambda>S T x. x)"
  by (simp_all add: E0_def)

lemma E0_rank [simp]:
  "T_rank E0 S (Plain T) =
     (if S = Bool_t \<and> T = Int_t then Some 0 else if S = Int_t \<and> T = Bool_t then Some 1 else None)"
  "T_rank E0 S (recursive_wrapper T) = Some 2"
  by (simp_all add: E0_def)

lemma Ts0_simps [simp]: "length Ts0 = 4" "Ts0 ! 0 = Plain Bool_t" "Ts0 ! 1 = Plain Int_t"
  "Ts0 ! 2 = Plain Text_t" "Ts0 ! 3 = recursive_wrapper Node_t"
  "Ts0 ! Suc 0 = Plain Int_t"
  by (simp_all add: Ts0_def)

lemma wf_holding [simp]: "wf_variant h Ts (holding i T x) \<longleftrightarrow> i < length Ts \<and> Ts ! i = Plain T"
  by (auto simp: wf_variant_def holding_def)

lemma wf_boxed [simp]:
  "wf_variant h Ts (boxed i T a) \<longleftrightarrow> i < length Ts \<and> Ts ! i = recursive_wrapper T \<and> deref h a \<noteq> None"
  by (auto simp: wf_variant_def boxed_def)

lemma active_value_holding [simp]: "active_value h (holding i T x) = Some (T, x)"
  by (simp add: active_value_def holding_def)

lemma active_value_boxed [simp]: "active_value h (boxed i T a) = map_option (Pair T) (deref h a)"
  by (simp add: active_value_def boxed_def)

lemma active_holding [simp]: "active (holding i T x) = i" "which_v (holding i T x) = i"
  by (simp_all add: holding_def which_v_def)

lemma active_boxed [simp]: "active (boxed i T a) = i" "which_v (boxed i T a) = i"
  by (simp_all add: boxed_def which_v_def)

lemma E0_order: "strict_total_order E0 T"
  by (auto simp: strict_total_order_def)

subsection \<open>Dispatch on a well-formed variant\<close>

lemma get_value_internal [simp]: "get_value h (T, x) True = Inr (T, x)"
  by (cases T) simp_all

lemma reinterpret_live [simp]: "reinterpret (type_of x) (Some x) = Some x"
  by (simp add: reinterpret_def)

lemma wf_variantD:
  assumes "wf_variant h Ts v"
  obtains x where "active v < length Ts" "storage v = Some x" "type_of x = Ts ! active v" "wf_obj h x"
  using assms by (auto simp: wf_variant_def split: option.splits)

lemma apply_visitor_internal_live:
  assumes "active v < length Ts" "storage v = Some x" "type_of x = Ts ! active v"
  shows "apply_visitor_internal h Ts v visitor = visitor [(type_of x, Some x)]"
  using assms
  by (simp add: apply_visitor_internal_def apply_v_def visit_impl_def invoke_def
      reinterpret_def)

lemma wf_obj_value: "wf_obj h x \<Longrightarrow> \<exists>T y. value_of h x = Some (T, y)"
  by (cases x) (auto split: option.splits)

lemma get_value_external:
  assumes "wf_obj h x" "value_of h x = Some (T, y)" "type_of x = U"
  shows "get_value h (U, Some x) False = Inr (Plain T, Some (Obj T y))"
  using assms by (cases x) (auto simp: rw_get_def split: option.splits)

lemma apply_v_external:
  assumes "wf_variant h Ts v" "active_value h v = Some (T, y)"
  shows "apply_v h Ts v False visitor args = visitor ((Plain T, Some (Obj T y)) # args)"
proof -
  from assms(1) obtain x where x: "active v < length Ts" "storage v = Some x"
    "type_of x = Ts ! active v" "wf_obj h x" by (rule wf_variantD)
  from assms(2) x(2) have val: "value_of h x = Some (T, y)" by (simp add: active_value_def)
  show ?thesis
    using x
    by (simp add: apply_v_def visit_impl_def invoke_def reinterpret_def
        get_value_external [OF x(4) val x(3)])
qed

lemma wf_active_value: "wf_variant h Ts v \<Longrightarrow> \<exists>T y. active_value h v = Some (T, y)"
  by (auto simp: active_value_def elim!: wf_variantD dest: wf_obj_value)

subsection \<open>Overload resolution of \<open>initialize\<close>\<close>

lemma initializer_set:
  "(U, k) \<in> set (initializer TT Ts) \<longleftrightarrow>
     (\<exists>i<length Ts. U = Ts ! i \<and> k = TT + i \<and> (\<forall>j<i. Ts ! j \<noteq> U))"
proof (induction Ts arbitrary: TT)
  case Nil
  then show ?case by simp
next
  case (Cons T Ts)
  show ?case
  proof
    assume "(U, k) \<in> set (initializer TT (T # Ts))"
    then consider "U = T" "k = TT" | "U \<noteq> T" "(U, k) \<in> set (initializer (TT + 1) Ts)" by auto
    then show "\<exists>i<length (T # Ts). U = (T # Ts) ! i \<and> k = TT + i \<and> (\<forall>j<i. (T # Ts) ! j \<noteq> U)"
    proof cases
      case 1
      then show ?thesis by (intro exI [of _ 0]) simp
    next
      case 2
      from 2(2) obtain i where i: "i < length Ts" "U = Ts ! i" "k = TT + 1 + i"
        "\<forall>j<i. Ts ! j \<noteq> U"
        unfolding Cons.IH by blast
      have "(T # Ts) ! j \<noteq> U" if "j < Suc i" for j
        using that 2(1) i(4) by (cases j) auto
      with i(1-3) show ?thesis by (intro exI [of _ "Suc i"]) simp
    qed
  next
    assume "\<exists>i<length (T # Ts). U = (T # Ts) ! i \<and> k = TT + i \<and> (\<forall>j<i. (T # Ts) ! j \<noteq> U)"
    then obtain i where i: "i < length (T # Ts)" "U = (T # Ts) ! i" "k = TT + i"
      and first: "\<forall>j<i. (T # Ts) ! j \<noteq> U" by blast
    show "(U, k) \<in> set (initializer TT (T # Ts))"
    proof (cases i)
      case 0
      with i show ?thesis by simp
    next
      case (Suc n)
      with i have n: "n < length Ts" "U = Ts ! n" "k = TT + 1 + n" by simp_all
      from first Suc have "(T # Ts) ! 0 \<noteq> U" by blast
      then have ne: "U \<noteq> T" by auto
      have "Ts ! j \<noteq> U" if "j < n" for j
      proof -
        from that Suc have "Suc j < i" by simp
        with first have "(T # Ts) ! Suc j \<noteq> U" by blast
        then show ?thesis by simp
      qed
      with n have "\<exists>i<length Ts. U = Ts ! i \<and> k = TT + 1 + i \<and> (\<forall>j<i. Ts ! j \<noteq> U)" by blast
      then have "(U, k) \<in> set (initializer (TT + 1) Ts)" by (simp only: Cons.IH)
      with ne show ?thesis by simp
    qed
  qed
qed

lemma initializer_distinct: "distinct (initializer TT Ts)"
proof (induction Ts arbitrary: TT)
  case Nil
  then show ?case by simp
next
  case (Cons T Ts)
  have "(T, TT) \<notin> set (initializer (TT + 1) Ts)" by (simp add: initializer_set)
  with Cons.IH [of "TT + 1"] show ?case by simp
qed

lemma first_declaration:
  assumes "j < length Ts"
  shows "\<exists>i\<le>j. Ts ! i = Ts ! j \<and> (\<forall>n<i. Ts ! n \<noteq> Ts ! j)"
proof -
  let ?i = "LEAST i. Ts ! i = Ts ! j"
  have "Ts ! ?i = Ts ! j" by (rule LeastI [of "\<lambda>i. Ts ! i = Ts ! j" j]) simp
  moreover have "?i \<le> j" by (rule Least_le) simp
  moreover have "Ts ! n \<noteq> Ts ! j" if "n < ?i" for n using not_less_Least [OF that] .
  ultimately show ?thesis by blast
qed

lemma better_antisym: "better r r' \<Longrightarrow> \<not> better r' r"
  by (cases r; cases r') auto

lemma best_conversion_iff:
  "best_conversion E S Ts i \<longleftrightarrow>
     i < length Ts \<and> conversion_rank E S (Ts ! i) \<noteq> None \<and>
     (\<forall>j<i. Ts ! j \<noteq> Ts ! i) \<and>
     (\<forall>j<length Ts. Ts ! j \<noteq> Ts ! i \<longrightarrow>
        better (conversion_rank E S (Ts ! i)) (conversion_rank E S (Ts ! j)))"
  by (auto simp: best_conversion_def list_all_iff)

lemma first_declaration_unique:
  assumes "\<forall>n<i. Ts ! n \<noteq> Ts ! i" "\<forall>n<j. Ts ! n \<noteq> Ts ! j" "Ts ! i = Ts ! j"
  shows "i = (j::nat)"
proof (rule ccontr)
  assume "i \<noteq> j"
  then consider "i < j" | "j < i" by linarith
  then show False
  proof cases
    case 1
    with assms(2) have "Ts ! i \<noteq> Ts ! j" by blast
    with assms(3) show False by simp
  next
    case 2
    with assms(1) have "Ts ! j \<noteq> Ts ! i" by blast
    with assms(3) show False by simp
  qed
qed

lemma best_conversion_unique:
  assumes "best_conversion E S Ts i" "best_conversion E S Ts j"
  shows "i = j"
proof (cases "Ts ! i = Ts ! j")
  case True
  from assms have "\<forall>n<i. Ts ! n \<noteq> Ts ! i" "\<forall>n<j. Ts ! n \<noteq> Ts ! j"
    by (simp_all add: best_conversion_iff)
  then show ?thesis using True by (rule first_declaration_unique)
next
  case False
  from assms have i: "i < length Ts" and j: "j < length Ts"
    and bi: "\<forall>n<length Ts. Ts ! n \<noteq> Ts ! i \<longrightarrow>
        better (conversion_rank E S (Ts ! i)) (conversion_rank E S (Ts ! n))"
    and bj: "\<forall>n<length Ts. Ts ! n \<noteq> Ts ! j \<longrightarrow>
        better (conversion_rank E S (Ts ! j)) (conversion_rank E S (Ts ! n))"
    by (simp_all add: best_conversion_iff)
  from bi j False have "better (conversion_rank E S (Ts ! i)) (conversion_rank E S (Ts ! j))"
    by metis
  moreover from bj i False
  have "better (conversion_rank E S (Ts ! j)) (conversion_rank E S (Ts ! i))"
    by metis
  ultimately show ?thesis using better_antisym by blast
qed

lemma best_member:
  "(U, k) \<in> set (filter (\<lambda>c. list_all (\<lambda>c'. c' = c \<or>
                      better (conversion_rank E S (fst c)) (conversion_rank E S (fst c')))
                    (viable E S (initializer 0 Ts)))
             (viable E S (initializer 0 Ts)))
   \<longleftrightarrow> U = Ts ! k \<and> best_conversion E S Ts k"
  (is "?L \<longleftrightarrow> ?R")
proof
  assume L: ?L
  then have mem: "(U, k) \<in> set (initializer 0 Ts)" and via: "conversion_rank E S U \<noteq> None"
    and best: "\<forall>c'\<in>set (viable E S (initializer 0 Ts)). c' = (U, k) \<or>
                 better (conversion_rank E S U) (conversion_rank E S (fst c'))"
    by (auto simp: viable_def list_all_iff)
  from mem have k: "k < length Ts" "U = Ts ! k" and first: "\<forall>n<k. Ts ! n \<noteq> Ts ! k"
    by (auto simp: initializer_set)
  have "better (conversion_rank E S (Ts ! k)) (conversion_rank E S (Ts ! j))"
    if j: "j < length Ts" "Ts ! j \<noteq> Ts ! k" for j
  proof (cases "conversion_rank E S (Ts ! j)")
    case None
    with via k show ?thesis by (cases "conversion_rank E S (Ts ! k)") auto
  next
    case (Some r)
    from first_declaration [OF j(1)] obtain i
      where i: "i \<le> j" "Ts ! i = Ts ! j" "\<forall>n<i. Ts ! n \<noteq> Ts ! j" by blast
    with j(1) have "(Ts ! j, i) \<in> set (initializer 0 Ts)"
      unfolding initializer_set by (intro exI [of _ i]) simp
    with Some have "(Ts ! j, i) \<in> set (viable E S (initializer 0 Ts))"
      by (simp add: viable_def)
    with best have "(Ts ! j, i) = (U, k) \<or>
        better (conversion_rank E S U) (conversion_rank E S (fst (Ts ! j, i)))" by (rule bspec)
    with j(2) k(2) show ?thesis by simp
  qed
  with k via first show ?R by (simp add: best_conversion_iff)
next
  assume R: ?R
  then have k: "k < length Ts" "U = Ts ! k" "conversion_rank E S (Ts ! k) \<noteq> None"
    and first: "\<forall>n<k. Ts ! n \<noteq> Ts ! k"
    and best: "\<forall>j<length Ts. Ts ! j \<noteq> Ts ! k \<longrightarrow>
        better (conversion_rank E S (Ts ! k)) (conversion_rank E S (Ts ! j))"
    by (simp_all add: best_conversion_iff)
  from k(1,2) first have "(U, k) \<in> set (initializer 0 Ts)"
    unfolding initializer_set by (intro exI [of _ k]) simp
  with k have "(U, k) \<in> set (viable E S (initializer 0 Ts))"
    by (simp add: viable_def)
  moreover have "c' = (U, k) \<or> better (conversion_rank E S U) (conversion_rank E S (fst c'))"
    if "c' \<in> set (viable E S (initializer 0 Ts))" for c'
  proof -
    from that have "(fst c', snd c') \<in> set (initializer 0 Ts)" by (simp add: viable_def)
    then obtain j where "j < length Ts" "fst c' = Ts ! j" "snd c' = j" "\<forall>n<j. Ts ! n \<noteq> fst c'"
      unfolding initializer_set by auto
    then have j: "j < length Ts" "c' = (Ts ! j, j)" and fj: "\<forall>n<j. Ts ! n \<noteq> Ts ! j"
      by (simp_all add: prod_eq_iff)
    show ?thesis
    proof (cases "Ts ! j = Ts ! k")
      case True
      with fj first have "j = k" by (rule first_declaration_unique)
      with j k show ?thesis by simp
    next
      case False
      with best j have "better (conversion_rank E S (Ts ! k)) (conversion_rank E S (Ts ! j))"
        by blast
      with j k show ?thesis by simp
    qed
  qed
  ultimately show ?L by (simp add: list_all_iff)
qed

lemma singleton_list:
  assumes "distinct xs" "x \<in> set xs" "\<forall>y\<in>set xs. y = x"
  shows "xs = [x]"
proof (cases xs)
  case Nil
  with assms show ?thesis by simp
next
  case (Cons a as)
  with assms have "a = x" by simp
  moreover have "as = []"
  proof (cases as)
    case Nil
    then show ?thesis .
  next
    case (Cons b bs)
    with \<open>xs = a # as\<close> assms have "b = x" "a = x" "a \<noteq> b" by auto
    then show ?thesis by simp
  qed
  ultimately show ?thesis using Cons by simp
qed

lemma resolve_selected:
  assumes "best_conversion E S Ts i"
  shows "resolve E S (initializer 0 Ts) = Inr (Ts ! i, i)"
proof -
  let ?B = "filter (\<lambda>c. list_all (\<lambda>c'. c' = c \<or>
                      better (conversion_rank E S (fst c)) (conversion_rank E S (fst c')))
                    (viable E S (initializer 0 Ts)))
             (viable E S (initializer 0 Ts))"
  have d: "distinct ?B" by (simp add: viable_def initializer_distinct)
  have m: "(Ts ! i, i) \<in> set ?B" using assms by (simp only: best_member)
  have u: "\<forall>c\<in>set ?B. c = (Ts ! i, i)"
  proof
    fix c assume "c \<in> set ?B"
    then have "(fst c, snd c) \<in> set ?B" by simp
    then have "fst c = Ts ! snd c" "best_conversion E S Ts (snd c)"
      by (simp_all only: best_member)
    then have "snd c = i" "fst c = Ts ! i"
      using best_conversion_unique [OF _ assms, of "snd c"] by simp_all
    then show "c = (Ts ! i, i)" by (simp add: prod_eq_iff)
  qed
  from singleton_list [OF d m u] show ?thesis by (simp add: resolve_def)
qed

lemma resolve_rejected:
  assumes "\<forall>i. \<not> best_conversion E S Ts i"
  shows "resolve E S (initializer 0 Ts) = Inl Ill_formed"
proof -
  let ?B = "filter (\<lambda>c. list_all (\<lambda>c'. c' = c \<or>
                      better (conversion_rank E S (fst c)) (conversion_rank E S (fst c')))
                    (viable E S (initializer 0 Ts)))
             (viable E S (initializer 0 Ts))"
  have "?B = []"
  proof (cases ?B)
    case Nil
    then show ?thesis .
  next
    case (Cons c cs)
    then have "(fst c, snd c) \<in> set ?B" by simp
    then have "best_conversion E S Ts (snd c)" by (simp only: best_member)
    with assms show ?thesis by blast
  qed
  then show ?thesis by (simp add: resolve_def)
qed

lemma better_exact: "better (Some 0) (map_option Suc r)"
  by (cases r) simp_all

lemma conversion_rank_other:
  "U \<noteq> Plain T \<Longrightarrow> better (conversion_rank E T (Plain T)) (conversion_rank E T U)"
  by (cases U) (auto simp: better_exact)

lemma plain_first_best:
  assumes "i < length Ts" "Ts ! i = Plain T" "list_all (\<lambda>j. Ts ! j \<noteq> Plain T) [0..<i]"
  shows "best_conversion E T Ts i"
  unfolding best_conversion_iff
proof (intro conjI allI impI)
  show "i < length Ts" by fact
  show "conversion_rank E T (Ts ! i) \<noteq> None" using assms(2) by simp
  show "Ts ! j \<noteq> Ts ! i" if "j < i" for j
    using that assms(3) unfolding assms(2) by (simp add: list_all_iff)
  show "better (conversion_rank E T (Ts ! i)) (conversion_rank E T (Ts ! j))"
    if "j < length Ts" "Ts ! j \<noteq> Ts ! i" for j
    using that(2) unfolding assms(2) by (rule conversion_rank_other)
qed

lemma initialize_plain:
  assumes "cat = Lvalue \<longrightarrow> T_copy_throws E T t = None"
  shows "initialize E (Plain T) i T cat t h = (Inr \<lparr>storage = Some (Obj T t), active = i\<rparr>, h)"
  using assms
  by (cases cat) (simp_all add: initialize_def construct_copy_def construct_move_def T_copy_ctor_def)

lemma initialize_wrapper:
  assumes "cat = Lvalue \<longrightarrow> T_copy_throws E T t = None"
  shows "initialize E (recursive_wrapper T) i T cat t h =
           (Inr \<lparr>storage = Some (Wrapper_obj T (Some (length h))), active = i\<rparr>, h @ [Some t])"
  using assms
  by (cases cat)
    (simp_all add: initialize_def converted_def rw_ctor_def T_from_def T_copy_ctor_def
      heap_new_def construct_move_def rw_move_ctor_def rw_dtor_def)

lemma initialize_result:
  assumes "initialize E U TT S cat x h = (Inr v, h')"
  shows "active v = TT \<and> (\<exists>obj. storage v = Some obj \<and> type_of obj = U)"
proof (cases "U = Plain S")
  case True
  with assms show ?thesis
    by (cases cat)
      (auto simp: initialize_def construct_copy_def construct_move_def T_copy_ctor_def
        split: option.splits)
next
  case False
  with assms show ?thesis
    by (cases U)
      (auto simp: initialize_def converted_def construct_move_def rw_move_ctor_def
        split: sum.splits prod.splits)
qed

lemma construct_move_Inr: "\<exists>st d. construct_move E (Some y) = Inr (st, d)"
  by (simp add: construct_move_def split_beta)

lemma converted_no_contract_error:
  "fst (converted E U S cat x h) \<noteq> Inl Assertion_failed \<and>
   fst (converted E U S cat x h) \<noteq> Inl Undefined_behaviour \<and>
   fst (converted E U S cat x h) \<noteq> Inl Ill_formed"
proof (cases U)
  case (Plain T)
  then show ?thesis by (simp add: converted_def)
next
  case (recursive_wrapper T)
  show ?thesis
  proof (cases "S = T")
    case True
    then show ?thesis using recursive_wrapper
      by (cases cat; cases "T_copy_throws E T x")
        (simp_all add: converted_def rw_ctor_def T_from_def T_copy_ctor_def heap_new_def)
  next
    case False
    then show ?thesis using recursive_wrapper
      by (simp add: converted_def rw_ctor_def T_from_def heap_new_def)
  qed
qed

lemma initialize_no_contract_error:
  "fst (initialize E U TT S cat x h) \<noteq> Inl Assertion_failed \<and>
   fst (initialize E U TT S cat x h) \<noteq> Inl Undefined_behaviour \<and>
   fst (initialize E U TT S cat x h) \<noteq> Inl Ill_formed"
proof (cases "U = Plain S")
  case True
  then show ?thesis
    by (cases cat; cases "T_copy_throws E S x")
      (simp_all add: initialize_def construct_copy_def construct_move_def T_copy_ctor_def)
next
  case False
  obtain r h1 where c: "converted E U S cat x h = (r, h1)" by (cases "converted E U S cat x h")
  show ?thesis
  proof (cases r)
    case (Inl e)
    with c converted_no_contract_error [of E U S cat x h] False show ?thesis
      by (simp add: initialize_def)
  next
    case (Inr tmp)
    from construct_move_Inr [of E tmp] obtain st d
      where "construct_move E (Some tmp) = Inr (st, d)" by blast
    with c Inr False show ?thesis by (simp add: initialize_def)
  qed
qed

subsection \<open>Round trip\<close>

lemma get_wf:
  assumes "wf_variant h Ts v" "active_value h v = Some (T, y)"
  shows "get U h (Ts, v) = (if Plain T = U then Inr (Some (Plain T, Some (Obj T y))) else Inr None)"
  by (simp add: get_def expose_def apply_v_external [OF assms] getter_def)

text \<open>
  Claim C1, as the spec has it: for every alternative type \<open>T\<close> and value \<open>t\<close>,
  constructing a variant from \<open>t\<close> yields \<open>which(v)\<close> equal to the discriminator \<open>T\<close>
  was declared with, \<open>is<T>(v)\<close> true and \<open>get<T>(v)\<close> non-null. In
  \<open>variant<size_t, recursive_wrapper<Bool>, Int>\<close> the alternative \<open>Bool\<close> is declared with
  discriminator 0. A \<open>Bool\<close> converts to an \<open>Int\<close> by a standard conversion, which is
  better than the converting constructor of the wrapper: the constructor makes the
  \<open>Int\<close> alternative, \<open>which(v)\<close> is 1, \<open>is<Bool>(v)\<close> is false and \<open>get<Bool>(v)\<close>
  is null.
\<close>

theorem round_trip_wrapped_alternative_bypassed:
  "[recursive_wrapper Bool_t, Plain Int_t] ! 0 = recursive_wrapper Bool_t \<and>
   variant_from_value E0 [recursive_wrapper Bool_t, Plain Int_t] Bool_t Rvalue 1 []
     = (Inr (holding 1 Int_t 1), []) \<and>
   which ([recursive_wrapper Bool_t, Plain Int_t], holding 1 Int_t 1) = 1 \<and>
   is_a (Plain Bool_t) [] ([recursive_wrapper Bool_t, Plain Int_t], holding 1 Int_t 1)
     = (Inr False :: exn error + bool) \<and>
   get (Plain Bool_t) [] ([recursive_wrapper Bool_t, Plain Int_t], holding 1 Int_t 1)
     = (Inr None :: exn error + (tyname, int) arg option)"
proof -
  have w: "wf_variant [] [recursive_wrapper Bool_t, Plain Int_t] (holding 1 Int_t 1)" by simp
  have a: "active_value [] (holding 1 Int_t 1) = Some (Int_t, 1)" by simp
  have "variant_from_value E0 [recursive_wrapper Bool_t, Plain Int_t] Bool_t Rvalue 1 []
     = (Inr (holding 1 Int_t 1), [])"
    by (simp add: variant_from_value_def resolve_def viable_def initialize_def converted_def
        construct_move_def holding_def)
  moreover have "which ([recursive_wrapper Bool_t, Plain Int_t], holding 1 Int_t 1) = 1"
    by (simp add: which_def expose_def)
  moreover have g: "get (Plain Bool_t) [] ([recursive_wrapper Bool_t, Plain Int_t], holding 1 Int_t 1)
     = (Inr None :: exn error + (tyname, int) arg option)"
    by (simp only: get_wf [OF w a]) simp
  moreover have "is_a (Plain Bool_t) [] ([recursive_wrapper Bool_t, Plain Int_t], holding 1 Int_t 1)
     = (Inr False :: exn error + bool)"
    by (simp only: is_a_def g) simp
  ultimately show ?thesis by simp
qed

text \<open>
  Claim C1, amended: the round trip holds for a type \<open>T\<close> that is declared as itself,
  with the discriminator of its first declaration, and for a type declared as
  \<open>recursive_wrapper<T>\<close> when a \<open>T\<close> converts to that wrapper by a conversion better
  than the one to any alternative of another type. Constructing a variant from a value
  \<open>t\<close> of type \<open>T\<close>, by a copy that does not raise or by a move, then yields \<open>which(v)\<close>
  equal to that discriminator, \<open>is<T>(v)\<close> true, \<open>get<T>(v)\<close> non-null and pointing to a
  \<open>T\<close> of value \<open>t\<close>, and \<open>get<U>(v)\<close> null for every other type \<open>U\<close>; and \<open>get\<close> on a
  well-formed variant never fails, it returns a pointer or null.
\<close>

theorem variant_round_trip:
  fixes E :: "('t, 'a, 'e) type_env"
  assumes sel: "(i < length Ts \<and> Ts ! i = Plain T \<and> list_all (\<lambda>j. Ts ! j \<noteq> Plain T) [0..<i]) \<or>
                (Ts ! i = recursive_wrapper T \<and> best_conversion E T Ts i)"
    and nothrow: "cat = Lvalue \<longrightarrow> T_copy_throws E T t = None"
  shows "(\<exists>v h'. variant_from_value E Ts T cat t h = (Inr v, h') \<and>
            which (Ts, v) = i \<and>
            is_a (Plain T) h' (Ts, v) = (Inr True :: 'e error + bool) \<and>
            get (Plain T) h' (Ts, v)
              = (Inr (Some (Plain T, Some (Obj T t))) :: 'e error + ('t, 'a) arg option) \<and>
            (\<forall>U. U \<noteq> Plain T \<longrightarrow>
               get U h' (Ts, v) = (Inr None :: 'e error + ('t, 'a) arg option) \<and>
               is_a U h' (Ts, v) = (Inr False :: 'e error + bool))) \<and>
         (\<forall>U h' w. wf_variant h' Ts w \<longrightarrow>
            (\<exists>p. get U h' (Ts, w) = (Inr p :: 'e error + ('t, 'a) arg option)))"
proof -
  have u: "best_conversion E T Ts i"
  proof (rule disjE [OF sel])
    assume "i < length Ts \<and> Ts ! i = Plain T \<and> list_all (\<lambda>j. Ts ! j \<noteq> Plain T) [0..<i]"
    then have "i < length Ts" "Ts ! i = Plain T" "list_all (\<lambda>j. Ts ! j \<noteq> Plain T) [0..<i]"
      by blast+
    then show ?thesis by (rule plain_first_best)
  next
    assume "Ts ! i = recursive_wrapper T \<and> best_conversion E T Ts i"
    then show ?thesis by (rule conjunct2)
  qed
  then have i: "i < length Ts" by (simp add: best_conversion_iff)
  have run: "variant_from_value E Ts T cat t h = initialize E (Ts ! i) i T cat t h"
    by (simp add: variant_from_value_def resolve_selected [OF u])
  from sel have ty: "Ts ! i = Plain T \<or> Ts ! i = recursive_wrapper T" by blast
  have "\<exists>v h'. initialize E (Ts ! i) i T cat t h = (Inr v, h') \<and> active v = i \<and>
                   wf_variant h' Ts v \<and> active_value h' v = Some (T, t)"
  proof (rule disjE [OF ty])
    assume p: "Ts ! i = Plain T"
    show ?thesis
      unfolding p using initialize_plain [OF nothrow, of i h] i p
      by (simp add: wf_variant_def active_value_def)
  next
    assume p: "Ts ! i = recursive_wrapper T"
    show ?thesis
      unfolding p using initialize_wrapper [OF nothrow, of i h] i p
      by (simp add: wf_variant_def active_value_def deref_def)
  qed
  then obtain v h' where v: "initialize E (Ts ! i) i T cat t h = (Inr v, h')" "active v = i"
    "wf_variant h' Ts v" "active_value h' v = Some (T, t)" by blast
  have g: "get U h' (Ts, v) =
             (if Plain T = U then Inr (Some (Plain T, Some (Obj T t))) else Inr None
              :: 'e error + ('t, 'a) arg option)" for U
    by (rule get_wf [OF v(3,4)])
  have q1: "variant_from_value E Ts T cat t h = (Inr v, h')" by (simp add: run v(1))
  have q2: "which (Ts, v) = i" by (simp add: which_def which_v_def expose_def v(2))
  have q3: "is_a (Plain T) h' (Ts, v) = (Inr True :: 'e error + bool)"
    by (simp add: is_a_def g)
  have q4: "get (Plain T) h' (Ts, v)
              = (Inr (Some (Plain T, Some (Obj T t))) :: 'e error + ('t, 'a) arg option)"
    by (simp add: g)
  have q5: "get U h' (Ts, v) = (Inr None :: 'e error + ('t, 'a) arg option) \<and>
            is_a U h' (Ts, v) = (Inr False :: 'e error + bool)" if "U \<noteq> Plain T" for U
    using that by (simp add: is_a_def g)
  have p1: "\<exists>v h'. variant_from_value E Ts T cat t h = (Inr v, h') \<and>
            which (Ts, v) = i \<and>
            is_a (Plain T) h' (Ts, v) = (Inr True :: 'e error + bool) \<and>
            get (Plain T) h' (Ts, v)
              = (Inr (Some (Plain T, Some (Obj T t))) :: 'e error + ('t, 'a) arg option) \<and>
            (\<forall>U. U \<noteq> Plain T \<longrightarrow>
               get U h' (Ts, v) = (Inr None :: 'e error + ('t, 'a) arg option) \<and>
               is_a U h' (Ts, v) = (Inr False :: 'e error + bool))"
    using q1 q2 q3 q4 q5 by blast
  have p2: "\<exists>p. get U h' (Ts, w) = (Inr p :: 'e error + ('t, 'a) arg option)"
    if "wf_variant h' Ts w" for U h' w
  proof -
    from wf_active_value [OF that] obtain T' y where "active_value h' w = Some (T', y)" by blast
    then show ?thesis by (simp add: get_wf [OF that])
  qed
  from p1 p2 show ?thesis by blast
qed

text \<open>
  The hypotheses of the amended C1 hold in the scenario: for the wrapped \<open>Node\<close>, to
  which alone a \<open>Node\<close> converts, built from an lvalue; for the \<open>Int\<close> built from an
  rvalue; and for a \<open>Text\<close> that is declared twice, which gets discriminator 0.
\<close>

theorem variant_round_trip_witness:
  "(3 < length Ts0 \<and> Ts0 ! 3 = recursive_wrapper Node_t \<and> best_conversion E0 Node_t Ts0 3) \<and>
   (\<exists>v h'. variant_from_value E0 Ts0 Node_t Lvalue 5 [] = (Inr v, h') \<and> which (Ts0, v) = 3 \<and>
      get (Plain Node_t) h' (Ts0, v) = (Inr (Some (Plain Node_t, Some (Obj Node_t 5))) :: exn error + _) \<and>
      get (Plain Int_t) h' (Ts0, v) = (Inr None :: exn error + _) \<and>
      get (recursive_wrapper Node_t) h' (Ts0, v) = (Inr None :: exn error + _)) \<and>
   (1 < length Ts0 \<and> Ts0 ! 1 = Plain Int_t \<and> list_all (\<lambda>j. Ts0 ! j \<noteq> Plain Int_t) [0..<1]) \<and>
   (\<exists>v h'. variant_from_value E0 Ts0 Int_t Rvalue 42 [] = (Inr v, h') \<and> which (Ts0, v) = 1 \<and>
      is_a (Plain Int_t) h' (Ts0, v) = (Inr True :: exn error + _) \<and>
      get (Plain Bool_t) h' (Ts0, v) = (Inr None :: exn error + _)) \<and>
   (\<exists>v h'. variant_from_value E0 [Plain Text_t, Plain Text_t] Text_t Rvalue 7 [] = (Inr v, h') \<and>
      which ([Plain Text_t, Plain Text_t], v) = 0 \<and>
      is_a (Plain Text_t) h' ([Plain Text_t, Plain Text_t], v) = (Inr True :: exn error + _))"
proof -
  have u: "best_conversion E0 Node_t Ts0 3"
    by (simp add: best_conversion_def Ts0_def upt_rec)
  have s1: "(3 < length Ts0 \<and> Ts0 ! 3 = Plain Node_t \<and> list_all (\<lambda>j. Ts0 ! j \<noteq> Plain Node_t) [0..<3]) \<or>
            (Ts0 ! 3 = recursive_wrapper Node_t \<and> best_conversion E0 Node_t Ts0 3)"
    using u by simp
  have n1: "Lvalue = Lvalue \<longrightarrow> T_copy_throws E0 Node_t 5 = None" by simp
  have once: "list_all (\<lambda>j. Ts0 ! j \<noteq> Plain Int_t) [0..<1]" by simp
  have s2: "(1 < length Ts0 \<and> Ts0 ! 1 = Plain Int_t \<and> list_all (\<lambda>j. Ts0 ! j \<noteq> Plain Int_t) [0..<1]) \<or>
            (Ts0 ! 1 = recursive_wrapper Int_t \<and> best_conversion E0 Int_t Ts0 1)"
    using once by simp
  have n2: "Rvalue = Lvalue \<longrightarrow> T_copy_throws E0 Int_t 42 = None" by simp
  have s3: "(0 < length [Plain Text_t, Plain Text_t] \<and> [Plain Text_t, Plain Text_t] ! 0 = Plain Text_t \<and>
               list_all (\<lambda>j. [Plain Text_t, Plain Text_t] ! j \<noteq> Plain Text_t) [0..<0]) \<or>
            ([Plain Text_t, Plain Text_t] ! 0 = recursive_wrapper Text_t \<and>
               best_conversion E0 Text_t [Plain Text_t, Plain Text_t] 0)"
    by simp
  have n3: "Rvalue = Lvalue \<longrightarrow> T_copy_throws E0 Text_t 7 = None" by simp
  from variant_round_trip [OF s1 n1, of "[]", THEN conjunct1]
  have r1: "\<exists>v h'. variant_from_value E0 Ts0 Node_t Lvalue 5 [] = (Inr v, h') \<and> which (Ts0, v) = 3 \<and>
      get (Plain Node_t) h' (Ts0, v) = (Inr (Some (Plain Node_t, Some (Obj Node_t 5))) :: exn error + _) \<and>
      get (Plain Int_t) h' (Ts0, v) = (Inr None :: exn error + _) \<and>
      get (recursive_wrapper Node_t) h' (Ts0, v) = (Inr None :: exn error + _)"
    by (elim exE conjE) (intro exI conjI, assumption+, simp_all)
  from variant_round_trip [OF s2 n2, of "[]", THEN conjunct1]
  have r2: "\<exists>v h'. variant_from_value E0 Ts0 Int_t Rvalue 42 [] = (Inr v, h') \<and> which (Ts0, v) = 1 \<and>
      is_a (Plain Int_t) h' (Ts0, v) = (Inr True :: exn error + _) \<and>
      get (Plain Bool_t) h' (Ts0, v) = (Inr None :: exn error + _)"
    by (elim exE conjE) (intro exI conjI, assumption+, simp_all)
  from variant_round_trip [OF s3 n3, of "[]", THEN conjunct1]
  have r3: "\<exists>v h'. variant_from_value E0 [Plain Text_t, Plain Text_t] Text_t Rvalue 7 [] = (Inr v, h') \<and>
      which ([Plain Text_t, Plain Text_t], v) = 0 \<and>
      is_a (Plain Text_t) h' ([Plain Text_t, Plain Text_t], v) = (Inr True :: exn error + _)"
    by (elim exE conjE) (intro exI conjI, assumption+)
  from u once r1 r2 r3 show ?thesis by simp
qed

subsection \<open>Equality\<close>

lemma alt_compare:
  assumes "wf_obj h x" "wf_obj h y" "type_of x = type_of y"
  shows "\<exists>T a b. value_of h x = Some (T, a) \<and> value_of h y = Some (T, b) \<and>
           alt_eq E h x y = Inr (T_equal E T a b) \<and> alt_less E h x y = Inr (T_less E T a b)"
  using assms
  by (cases x; cases y) (auto simp: rw_eq_def rw_less_def rw_get_def split: option.splits)

lemma compare_wf:
  assumes "wf_variant h Ts x" "wf_variant h Ts y"
  shows "\<exists>T a U b. active_value h x = Some (T, a) \<and> active_value h y = Some (U, b) \<and>
           (active x = active y \<longrightarrow> T = U) \<and>
           op_eq E h Ts x y = Inr (active x = active y \<and> T_equal E T a b) \<and>
           op_less E h Ts x y =
             Inr (if active x = active y then T_less E T a b else active x < active y)"
proof -
  from assms(1) obtain ox where ox: "active x < length Ts" "storage x = Some ox"
    "type_of ox = Ts ! active x" "wf_obj h ox" by (rule wf_variantD)
  from assms(2) obtain oy where oy: "active y < length Ts" "storage y = Some oy"
    "type_of oy = Ts ! active y" "wf_obj h oy" by (rule wf_variantD)
  show ?thesis
  proof (cases "active x = active y")
    case True
    with ox oy have ty: "type_of ox = type_of oy" by simp
    from alt_compare [OF ox(4) oy(4) ty, of E] obtain T a b where
      c: "value_of h ox = Some (T, a)" "value_of h oy = Some (T, b)"
         "alt_eq E h ox oy = Inr (T_equal E T a b)" "alt_less E h ox oy = Inr (T_less E T a b)"
      by blast
    have "reinterpret (type_of oy) (Some ox) = Some ox" using ty by (simp add: reinterpret_def)
    then show ?thesis using True ox oy c
      by (simp add: active_value_def op_eq_def op_less_def apply_visitor_internal_live
          equals_def less_than_def)
  next
    case False
    from wf_obj_value [OF ox(4)] wf_obj_value [OF oy(4)] obtain T a U b where
      "value_of h ox = Some (T, a)" "value_of h oy = Some (U, b)" by blast
    then show ?thesis using False ox oy
      by (simp add: active_value_def op_eq_def op_less_def)
  qed
qed

lemma compare_wf_at:
  assumes "wf_variant h Ts x" "wf_variant h Ts y"
    and "active_value h x = Some (T, a)" "active_value h y = Some (U, b)"
  shows "active x = active y \<Longrightarrow> T = U"
    and "op_eq E h Ts x y = Inr (active x = active y \<and> T_equal E T a b)"
    and "op_less E h Ts x y =
           Inr (if active x = active y then T_less E T a b else active x < active y)"
  using compare_wf [OF assms(1,2), of E] assms(3,4) by auto

text \<open>
  Claim C2: for two well-formed variants \<open>x\<close> and \<open>y\<close> of the same variant type,
  \<open>x == y\<close> holds if and only if their discriminators are equal and their active values
  compare equal by the \<open>==\<close> of the active alternative's type.
\<close>

theorem variant_equality:
  assumes "wf_variant h Ts x" "wf_variant h Ts y"
  shows "op_eq E h Ts x y =
           Inr (which_v x = which_v y \<and>
                (\<exists>T a b. active_value h x = Some (T, a) \<and> active_value h y = Some (T, b) \<and>
                          T_equal E T a b))"
proof -
  from compare_wf [OF assms, of E] obtain T a U b where
    c: "active_value h x = Some (T, a)" "active_value h y = Some (U, b)"
       "active x = active y \<longrightarrow> T = U"
       "op_eq E h Ts x y = Inr (active x = active y \<and> T_equal E T a b)"
    by blast
  then show ?thesis by (auto simp: which_v_def)
qed

text \<open>Two variants that hold equal \<open>Node\<close> values in different heap cells are equal.\<close>

theorem variant_equality_witness:
  "wf_variant [Some 5, Some 5] Ts0 (boxed 3 Node_t 0) \<and>
   wf_variant [Some 5, Some 5] Ts0 (boxed 3 Node_t 1) \<and>
   op_eq E0 [Some 5, Some 5] Ts0 (boxed 3 Node_t 0) (boxed 3 Node_t 1) = Inr True"
proof -
  have a: "wf_variant [Some (5::int), Some 5] Ts0 (boxed 3 Node_t 0)" by (simp add: deref_def)
  have b: "wf_variant [Some (5::int), Some 5] Ts0 (boxed 3 Node_t 1)" by (simp add: deref_def)
  have "op_eq E0 [Some 5, Some 5] Ts0 (boxed 3 Node_t 0) (boxed 3 Node_t 1) = Inr True"
    using variant_equality [OF a b, of E0] by (simp add: deref_def)
  with a b show ?thesis by blast
qed

subsection \<open>Ordering\<close>

lemma negate_Inr [simp]: "negate (Inr b) = Inr (\<not> b)"
  by (simp add: negate_def)

text \<open>
  Claim C3: for well-formed variants of the same variant type, \<open>x < y\<close> is decided by
  the discriminators alone when they differ and by the \<open><\<close> of the active alternative's
  type when they are equal; over variants with pairwise distinct discriminators the
  order is transitive and total; and when the own orders of the alternative types are
  strict total orders, \<open><\<close> on variants is one too (irreflexive, transitive, and of two
  variants one is less or they are equal, exclusively), with \<open><=\<close>, \<open>>\<close>, \<open>>=\<close> and
  \<open>!=\<close> as derived from it and \<open>==\<close>.
\<close>

theorem variant_ordering:
  assumes "wf_variant h Ts x" "wf_variant h Ts y" "wf_variant h Ts z"
  shows "(which_v x \<noteq> which_v y \<longrightarrow> op_less E h Ts x y = Inr (which_v x < which_v y)) \<and>
         (which_v x = which_v y \<longrightarrow>
            (\<exists>T a b. active_value h x = Some (T, a) \<and> active_value h y = Some (T, b) \<and>
                      op_less E h Ts x y = Inr (T_less E T a b))) \<and>
         (which_v x \<noteq> which_v y \<and> which_v y \<noteq> which_v z \<and> which_v x \<noteq> which_v z \<longrightarrow>
            (op_less E h Ts x y = Inr True \<and> op_less E h Ts y z = Inr True
               \<longrightarrow> op_less E h Ts x z = Inr True) \<and>
            op_less E h Ts x y = Inr (\<not> which_v y < which_v x) \<and>
            op_less E h Ts y x = negate (op_less E h Ts x y)) \<and>
         ((\<forall>T. strict_total_order E T) \<longrightarrow>
            op_less E h Ts x x = Inr False \<and>
            (op_less E h Ts x y = Inr True \<and> op_less E h Ts y z = Inr True
               \<longrightarrow> op_less E h Ts x z = Inr True) \<and>
            (op_less E h Ts x y = Inr True \<or> op_eq E h Ts x y = Inr True \<or>
               op_less E h Ts y x = Inr True) \<and>
            (op_eq E h Ts x y = Inr True
               \<longrightarrow> op_less E h Ts x y = Inr False \<and> op_less E h Ts y x = Inr False) \<and>
            (op_less E h Ts x y = Inr True \<longrightarrow> op_less E h Ts y x = Inr False) \<and>
            op_less_eq E h Ts x y =
              Inr (op_less E h Ts x y = Inr True \<or> op_eq E h Ts x y = Inr True) \<and>
            op_greater_eq E h Ts x y =
              Inr (op_greater E h Ts x y = Inr True \<or> op_eq E h Ts x y = Inr True) \<and>
            op_neq E h Ts x y =
              Inr (op_less E h Ts x y = Inr True \<or> op_greater E h Ts x y = Inr True)) \<and>
         op_greater E h Ts x y = op_less E h Ts y x"
proof -
  from wf_active_value [OF assms(1)] obtain Tx a where a: "active_value h x = Some (Tx, a)"
    by blast
  from wf_active_value [OF assms(2)] obtain Ty b where b: "active_value h y = Some (Ty, b)"
    by blast
  from wf_active_value [OF assms(3)] obtain Tz c where c: "active_value h z = Some (Tz, c)"
    by blast
  note xy = compare_wf_at [OF assms(1,2) a b]
  note yx = compare_wf_at [OF assms(2,1) b a]
  note yz = compare_wf_at [OF assms(2,3) b c]
  note xz = compare_wf_at [OF assms(1,3) a c]
  note xx = compare_wf_at [OF assms(1,1) a a]
  have p1: "which_v x \<noteq> which_v y \<longrightarrow> op_less E h Ts x y = Inr (which_v x < which_v y)"
    by (simp add: xy(3) which_v_def)
  have p2: "which_v x = which_v y \<longrightarrow>
            (\<exists>T a b. active_value h x = Some (T, a) \<and> active_value h y = Some (T, b) \<and>
                      op_less E h Ts x y = Inr (T_less E T a b))"
    using xy(1) by (auto simp: xy(3) which_v_def a b)
  have p3: "which_v x \<noteq> which_v y \<and> which_v y \<noteq> which_v z \<and> which_v x \<noteq> which_v z \<longrightarrow>
            (op_less E h Ts x y = Inr True \<and> op_less E h Ts y z = Inr True
               \<longrightarrow> op_less E h Ts x z = Inr True) \<and>
            op_less E h Ts x y = Inr (\<not> which_v y < which_v x) \<and>
            op_less E h Ts y x = negate (op_less E h Ts x y)"
    by (auto simp: xy(3) yx(3) yz(3) xz(3) which_v_def)
  have p4: "op_less E h Ts x x = Inr False \<and>
            (op_less E h Ts x y = Inr True \<and> op_less E h Ts y z = Inr True
               \<longrightarrow> op_less E h Ts x z = Inr True) \<and>
            (op_less E h Ts x y = Inr True \<or> op_eq E h Ts x y = Inr True \<or>
               op_less E h Ts y x = Inr True) \<and>
            (op_eq E h Ts x y = Inr True
               \<longrightarrow> op_less E h Ts x y = Inr False \<and> op_less E h Ts y x = Inr False) \<and>
            (op_less E h Ts x y = Inr True \<longrightarrow> op_less E h Ts y x = Inr False) \<and>
            op_less_eq E h Ts x y =
              Inr (op_less E h Ts x y = Inr True \<or> op_eq E h Ts x y = Inr True) \<and>
            op_greater_eq E h Ts x y =
              Inr (op_greater E h Ts x y = Inr True \<or> op_eq E h Ts x y = Inr True) \<and>
            op_neq E h Ts x y =
              Inr (op_less E h Ts x y = Inr True \<or> op_greater E h Ts x y = Inr True)"
    if ord: "\<forall>T. strict_total_order E T"
  proof -
    from ord have irr: "\<And>T a. \<not> T_less E T a a"
      and tr: "\<And>T a b c. T_less E T a b \<Longrightarrow> T_less E T b c \<Longrightarrow> T_less E T a c"
      and tot: "\<And>T a b. T_less E T a b \<or> T_equal E T a b \<or> T_less E T b a"
      and eq: "\<And>T a b. T_equal E T a b \<Longrightarrow> \<not> T_less E T a b \<and> \<not> T_less E T b a"
      unfolding strict_total_order_def by blast+
    have asym: "\<And>T a b. T_less E T a b \<Longrightarrow> \<not> T_less E T b a"
      using irr tr by blast
    have q1: "op_less E h Ts x x = Inr False" by (simp add: xx(3) irr)
    have q2: "op_less E h Ts x y = Inr True \<and> op_less E h Ts y z = Inr True
               \<longrightarrow> op_less E h Ts x z = Inr True"
      using xy(1) yz(1) xz(1) tr by (auto simp: xy(3) yz(3) xz(3) split: if_splits)
    have q3: "op_less E h Ts x y = Inr True \<or> op_eq E h Ts x y = Inr True \<or>
               op_less E h Ts y x = Inr True"
      using xy(1) tot [of Tx a b] by (auto simp: xy(2,3) yx(3))
    have q4: "op_eq E h Ts x y = Inr True
               \<longrightarrow> op_less E h Ts x y = Inr False \<and> op_less E h Ts y x = Inr False"
      using xy(1) eq [of Tx a b] by (auto simp: xy(2,3) yx(3))
    have q5: "op_less E h Ts x y = Inr True \<longrightarrow> op_less E h Ts y x = Inr False"
      using xy(1) asym [of Tx a b] by (auto simp: xy(3) yx(3))
    have q6: "op_less_eq E h Ts x y =
              Inr (op_less E h Ts x y = Inr True \<or> op_eq E h Ts x y = Inr True)"
      using xy(1) tot [of Tx a b] eq [of Tx a b] asym [of Tx a b] asym [of Tx b a]
      by (auto simp: op_less_eq_def xy(2,3) yx(3))
    have q7: "op_greater_eq E h Ts x y =
              Inr (op_greater E h Ts x y = Inr True \<or> op_eq E h Ts x y = Inr True)"
      using xy(1) tot [of Tx a b] eq [of Tx a b] asym [of Tx a b] asym [of Tx b a]
      by (auto simp: op_greater_eq_def op_greater_def xy(2,3) yx(3))
    have q8: "op_neq E h Ts x y =
              Inr (op_less E h Ts x y = Inr True \<or> op_greater E h Ts x y = Inr True)"
      using xy(1) tot [of Tx a b] eq [of Tx a b]
      by (auto simp: op_neq_def op_greater_def xy(2,3) yx(3))
    from q1 q2 q3 q4 q5 q6 q7 q8 show ?thesis by blast
  qed
  have p5: "op_greater E h Ts x y = op_less E h Ts y x" by (simp add: op_greater_def)
  from p1 p2 p3 p4 p5 show ?thesis by blast
qed

text \<open>In the scenario: \<open>Bool\<close> before \<open>Int\<close> before \<open>Text\<close>, whatever they hold.\<close>

theorem variant_ordering_witness:
  "wf_variant [] Ts0 (holding 0 Bool_t 1) \<and> wf_variant [] Ts0 (holding 1 Int_t 42) \<and>
   wf_variant [] Ts0 (holding 2 Text_t 7) \<and> (\<forall>T. strict_total_order E0 T) \<and>
   op_less E0 [] Ts0 (holding 0 Bool_t 1) (holding 1 Int_t 42) = Inr True \<and>
   op_less E0 [] Ts0 (holding 1 Int_t 42) (holding 2 Text_t 7) = Inr True \<and>
   op_less E0 [] Ts0 (holding 0 Bool_t 1) (holding 2 Text_t 7) = Inr True \<and>
   op_less E0 [] Ts0 (holding 0 Bool_t 1) (holding 0 Bool_t 1) = Inr False \<and>
   op_less_eq E0 [] Ts0 (holding 0 Bool_t 1) (holding 1 Int_t 42) = Inr True"
proof -
  have x: "wf_variant [] Ts0 (holding 0 Bool_t 1)" by simp
  have y: "wf_variant [] Ts0 (holding 1 Int_t 42)" by simp
  have z: "wf_variant [] Ts0 (holding 2 Text_t 7)" by simp
  have ord: "\<forall>T. strict_total_order E0 T" by (simp add: E0_order)
  note main = variant_ordering [OF x y z, where E = E0]
  have lt: "op_less E0 [] Ts0 (holding 0 Bool_t 1) (holding 1 Int_t 42) = Inr True"
    using main [THEN conjunct1] by simp
  note tot = main [THEN conjunct2, THEN conjunct2, THEN conjunct2, THEN conjunct1, THEN mp, OF ord]
  have yz: "op_less E0 [] Ts0 (holding 1 Int_t 42) (holding 2 Text_t 7) = Inr True"
    by (simp add: op_less_def)
  have xz: "op_less E0 [] Ts0 (holding 0 Bool_t 1) (holding 2 Text_t 7) = Inr True"
    using tot lt yz by blast
  have xx: "op_less E0 [] Ts0 (holding 0 Bool_t 1) (holding 0 Bool_t 1) = Inr False"
    using tot by blast
  have le: "op_less_eq E0 [] Ts0 (holding 0 Bool_t 1) (holding 1 Int_t 42) = Inr True"
    using tot lt by simp
  from x y z ord lt yz xz xx le show ?thesis by blast
qed

subsection \<open>Copy assignment and a failing copy\<close>

lemma alt_copy_ctor_throws:
  assumes "value_of h x = Some (T, y)" "T_copy_throws E T y = Some e"
  shows "alt_copy_ctor E x h = (Inl (Thrown e), h)"
  using assms
  by (cases x) (auto simp: T_copy_ctor_def rw_copy_ctor_def rw_get_def split: option.splits)

text \<open>
  Claim C4: when the discriminators of the two sides differ and the copy constructor of
  the source's active value raises \<open>e\<close>, copy assignment raises \<open>e\<close> and leaves the
  destination as it was: the same storage, the same discriminator, and the same heap.
\<close>

theorem copy_assign_atomic:
  assumes "wf_variant h Ts rhs" and "active self \<noteq> active rhs"
    and "active_value h rhs = Some (T, y)" and "T_copy_throws E T y = Some e"
  shows "copy_assign E Ts self rhs h = (Inl (Thrown e), self, h)"
proof -
  from assms(1) obtain x where x: "active rhs < length Ts" "storage rhs = Some x"
    "type_of x = Ts ! active rhs" "wf_obj h x" by (rule wf_variantD)
  from assms(3) x(2) have val: "value_of h x = Some (T, y)" by (simp add: active_value_def)
  have tmp: "alt_copy_ctor E x h = (Inl (Thrown e), h)"
    using val assms(4) by (rule alt_copy_ctor_throws)
  have "apply_visitor_internal h Ts rhs (assigner E Ts self (active rhs))
        = assigner E Ts self (active rhs) [(type_of x, Some x)]"
    using x(1-3) by (rule apply_visitor_internal_live)
  then show ?thesis using assms(2) tmp
    by (simp add: copy_assign_def assigner_def)
qed

text \<open>A \<open>Bool\<close> variant assigned a \<open>Text\<close> whose copy raises.\<close>

theorem copy_assign_atomic_witness:
  "wf_variant [] Ts0 (holding 2 Text_t (- 1)) \<and>
   active (holding 0 Bool_t 1) \<noteq> active (holding 2 Text_t (- 1)) \<and>
   active_value [] (holding 2 Text_t (- 1)) = Some (Text_t, - 1) \<and>
   T_copy_throws E0 Text_t (- 1) = Some Bad_alloc \<and>
   copy_assign E0 Ts0 (holding 0 Bool_t 1) (holding 2 Text_t (- 1)) []
     = (Inl (Thrown Bad_alloc), holding 0 Bool_t 1, [])"
proof -
  have a: "wf_variant [] Ts0 (holding 2 Text_t (- 1))" by simp
  have b: "active (holding 0 Bool_t 1) \<noteq> active (holding 2 Text_t (- 1))" by simp
  have c: "active_value [] (holding 2 Text_t (- 1)) = Some (Text_t, - 1)" by simp
  have d: "T_copy_throws E0 Text_t (- 1) = Some Bad_alloc" by simp
  from a b c d copy_assign_atomic [OF a b c d] show ?thesis by blast
qed

subsection \<open>Which alternative a value constructs\<close>

text \<open>
  Claim C5, as the spec has it: the alternative is the first, in declaration order, to
  which the argument converts. For \<open>variant<size_t, Int, Bool>\<close> and a \<open>Bool\<close>
  argument that is \<open>Int\<close>, declared first, to which a \<open>Bool\<close> converts; the
  constructor makes the \<open>Bool\<close> alternative, with discriminator 1, because the exact
  match is the better conversion.
\<close>

theorem construct_not_first_convertible:
  "first_convertible E0 Bool_t [Plain Int_t, Plain Bool_t] = Some 0 \<and>
   variant_from_value E0 [Plain Int_t, Plain Bool_t] Bool_t Rvalue 1 []
     = (Inr \<lparr>storage = Some (Obj Bool_t 1), active = 1\<rparr>, [])"
  by (simp add: first_convertible_def variant_from_value_def resolve_def viable_def
      initialize_def construct_move_def)

text \<open>
  Claim C5, amended: the alternative constructed is the declared \<open>Ti\<close> to which the
  argument converts by a conversion better than the one to every alternative of
  another type, wherever it is declared; of several declarations of that same type it
  is the first. If no such \<open>Ti\<close> exists (the argument converts to no alternative, or
  alternatives of two types share the best conversion) the construction is rejected by
  the compiler rather than producing a runtime error. A construction that returns has
  constructed that alternative and set the discriminator to its index, and no
  construction fails an assertion or is undefined.
\<close>

theorem construct_selects_best_conversion:
  fixes E :: "('t, 'a, 'e) type_env"
  shows "(\<forall>k. best_conversion E S Ts k
            \<longrightarrow> variant_from_value E Ts S cat x h = initialize E (Ts ! k) k S cat x h) \<and>
         ((\<forall>k. \<not> best_conversion E S Ts k)
            \<longrightarrow> variant_from_value E Ts S cat x h = (Inl Ill_formed, h)) \<and>
         ((\<forall>k<length Ts. conversion_rank E S (Ts ! k) = None)
            \<longrightarrow> variant_from_value E Ts S cat x h = (Inl Ill_formed, h)) \<and>
         (i < length Ts \<and> j < length Ts \<and> Ts ! i \<noteq> Ts ! j \<and>
          conversion_rank E S (Ts ! i) \<noteq> None \<and>
          conversion_rank E S (Ts ! i) = conversion_rank E S (Ts ! j) \<and>
          (\<forall>k<length Ts. \<not> better (conversion_rank E S (Ts ! k)) (conversion_rank E S (Ts ! i)))
            \<longrightarrow> variant_from_value E Ts S cat x h = (Inl Ill_formed, h)) \<and>
         (\<forall>v h'. variant_from_value E Ts S cat x h = (Inr v, h')
            \<longrightarrow> (\<exists>k obj. best_conversion E S Ts k \<and> which_v v = k \<and>
                    storage v = Some obj \<and> type_of obj = Ts ! k)) \<and>
         fst (variant_from_value E Ts S cat x h) \<noteq> Inl Assertion_failed \<and>
         fst (variant_from_value E Ts S cat x h) \<noteq> Inl Undefined_behaviour"
proof -
  have p1: "variant_from_value E Ts S cat x h = initialize E (Ts ! k) k S cat x h"
    if "best_conversion E S Ts k" for k
    by (simp add: variant_from_value_def resolve_selected [OF that])
  have p2: "variant_from_value E Ts S cat x h = (Inl Ill_formed, h)"
    if "\<forall>k. \<not> best_conversion E S Ts k"
    by (simp add: variant_from_value_def resolve_rejected [OF that])
  have p3: "variant_from_value E Ts S cat x h = (Inl Ill_formed, h)"
    if none: "\<forall>k<length Ts. conversion_rank E S (Ts ! k) = None"
  proof -
    have "\<not> best_conversion E S Ts k" for k
      using none by (auto simp: best_conversion_iff)
    then show ?thesis by (simp add: p2)
  qed
  have p4: "variant_from_value E Ts S cat x h = (Inl Ill_formed, h)"
    if tie: "i < length Ts \<and> j < length Ts \<and> Ts ! i \<noteq> Ts ! j \<and>
          conversion_rank E S (Ts ! i) \<noteq> None \<and>
          conversion_rank E S (Ts ! i) = conversion_rank E S (Ts ! j) \<and>
          (\<forall>k<length Ts. \<not> better (conversion_rank E S (Ts ! k)) (conversion_rank E S (Ts ! i)))"
  proof -
    from tie have i: "i < length Ts" and j: "j < length Ts" and ne: "Ts ! i \<noteq> Ts ! j"
      and eq: "conversion_rank E S (Ts ! i) = conversion_rank E S (Ts ! j)"
      and top: "\<forall>k<length Ts. \<not> better (conversion_rank E S (Ts ! k)) (conversion_rank E S (Ts ! i))"
      by blast+
    have "\<not> best_conversion E S Ts k" for k
    proof
      assume k: "best_conversion E S Ts k"
      then have kl: "k < length Ts"
        and best: "\<forall>n<length Ts. Ts ! n \<noteq> Ts ! k \<longrightarrow>
          better (conversion_rank E S (Ts ! k)) (conversion_rank E S (Ts ! n))"
        by (simp_all add: best_conversion_iff)
      from top kl have nb: "\<not> better (conversion_rank E S (Ts ! k)) (conversion_rank E S (Ts ! i))"
        by blast
      show False
      proof (cases "Ts ! i = Ts ! k")
        case True
        with ne have "Ts ! j \<noteq> Ts ! k" by simp
        with best j have "better (conversion_rank E S (Ts ! k)) (conversion_rank E S (Ts ! j))"
          by blast
        with nb eq show False by simp
      next
        case False
        with best i have "better (conversion_rank E S (Ts ! k)) (conversion_rank E S (Ts ! i))"
          by blast
        with nb show False by simp
      qed
    qed
    then show ?thesis by (simp add: p2)
  qed
  have p5: "\<exists>k obj. best_conversion E S Ts k \<and> which_v v = k \<and>
                    storage v = Some obj \<and> type_of obj = Ts ! k"
    if r: "variant_from_value E Ts S cat x h = (Inr v, h')" for v h'
  proof (cases "\<exists>k. best_conversion E S Ts k")
    case True
    then obtain k where k: "best_conversion E S Ts k" by blast
    with r have "initialize E (Ts ! k) k S cat x h = (Inr v, h')" by (simp add: p1)
    from initialize_result [OF this] k show ?thesis by (auto simp: which_v_def)
  next
    case False
    then have "variant_from_value E Ts S cat x h = (Inl Ill_formed, h)" by (simp add: p2)
    with r show ?thesis by simp
  qed
  have p6: "fst (variant_from_value E Ts S cat x h) \<noteq> Inl Assertion_failed \<and>
         fst (variant_from_value E Ts S cat x h) \<noteq> Inl Undefined_behaviour"
  proof (cases "\<exists>k. best_conversion E S Ts k")
    case True
    then obtain k where k: "best_conversion E S Ts k" by blast
    show ?thesis
      using initialize_no_contract_error [of E "Ts ! k" k S cat x h] by (simp add: p1 [OF k])
  next
    case False
    then have "variant_from_value E Ts S cat x h = (Inl Ill_formed, h)" by (simp add: p2)
    then show ?thesis by simp
  qed
  from p1 p2 p3 p4 p5 p6 show ?thesis by blast
qed

text \<open>
  In the scenario a \<open>Bool\<close> constructs alternative 0; a \<open>Text\<close> constructs alternative
  0 of a variant type that declares \<open>Text\<close> twice; a \<open>Node\<close> converts to none of
  \<open>Bool\<close>, \<open>Int\<close> and \<open>Text\<close>; and a \<open>Bool\<close> converts equally well to a
  \<open>recursive_wrapper<Bool>\<close> and to a \<open>recursive_wrapper<Int>\<close>, so that a variant
  of these two cannot be constructed from it.
\<close>

theorem construct_selects_best_conversion_witness:
  "best_conversion E0 Bool_t Ts0 0 \<and>
   variant_from_value E0 Ts0 Bool_t Rvalue 1 [] = (Inr (holding 0 Bool_t 1), []) \<and>
   best_conversion E0 Text_t [Plain Text_t, Plain Text_t] 0 \<and>
   variant_from_value E0 [Plain Text_t, Plain Text_t] Text_t Rvalue 7 []
     = (Inr (holding 0 Text_t 7), []) \<and>
   list_all (\<lambda>k. conversion_rank E0 Node_t (Ts3 ! k) = None) [0..<length Ts3] \<and>
   variant_from_value E0 Ts3 Node_t Rvalue 5 [] = (Inl Ill_formed, []) \<and>
   [recursive_wrapper Bool_t, recursive_wrapper Int_t] ! 0
     \<noteq> [recursive_wrapper Bool_t, recursive_wrapper Int_t] ! 1 \<and>
   conversion_rank E0 Bool_t ([recursive_wrapper Bool_t, recursive_wrapper Int_t] ! 0) = Some 3 \<and>
   conversion_rank E0 Bool_t ([recursive_wrapper Bool_t, recursive_wrapper Int_t] ! 1) = Some 3 \<and>
   variant_from_value E0 [recursive_wrapper Bool_t, recursive_wrapper Int_t] Bool_t Rvalue 1 []
     = (Inl Ill_formed, [])"
proof -
  note main = construct_selects_best_conversion [where E = E0 and h = "[]" and cat = Rvalue]
  have u: "best_conversion E0 Bool_t Ts0 0"
    by (simp add: best_conversion_def Ts0_def upt_rec)
  have a: "variant_from_value E0 Ts0 Bool_t Rvalue 1 [] = (Inr (holding 0 Bool_t 1), [])"
    using main [where S = Bool_t and Ts = Ts0 and x = 1, THEN conjunct1, rule_format, OF u]
    by (simp add: initialize_def construct_move_def holding_def)
  have u2: "best_conversion E0 Text_t [Plain Text_t, Plain Text_t] 0"
    by (simp add: best_conversion_def upt_rec)
  have b: "variant_from_value E0 [Plain Text_t, Plain Text_t] Text_t Rvalue 7 []
     = (Inr (holding 0 Text_t 7), [])"
    using main [where S = Text_t and Ts = "[Plain Text_t, Plain Text_t]" and x = 7,
        THEN conjunct1, rule_format, OF u2]
    by (simp add: initialize_def construct_move_def holding_def)
  have none: "\<forall>k<length Ts3. conversion_rank E0 Node_t (Ts3 ! k) = None"
    by (simp add: Ts3_def All_less_Suc numeral_3_eq_3)
  have c: "variant_from_value E0 Ts3 Node_t Rvalue 5 [] = (Inl Ill_formed, [])"
    using main [where S = Node_t and Ts = Ts3 and x = 5,
        THEN conjunct2, THEN conjunct2, THEN conjunct1, THEN mp, OF none] .
  have r0: "conversion_rank E0 Bool_t ([recursive_wrapper Bool_t, recursive_wrapper Int_t] ! 0) = Some 3"
    and r1: "conversion_rank E0 Bool_t ([recursive_wrapper Bool_t, recursive_wrapper Int_t] ! 1) = Some 3"
    by simp_all
  have tie: "(0::nat) < length [recursive_wrapper Bool_t, recursive_wrapper Int_t] \<and>
     (1::nat) < length [recursive_wrapper Bool_t, recursive_wrapper Int_t] \<and>
     [recursive_wrapper Bool_t, recursive_wrapper Int_t] ! 0
       \<noteq> [recursive_wrapper Bool_t, recursive_wrapper Int_t] ! 1 \<and>
     conversion_rank E0 Bool_t ([recursive_wrapper Bool_t, recursive_wrapper Int_t] ! 0) \<noteq> None \<and>
     conversion_rank E0 Bool_t ([recursive_wrapper Bool_t, recursive_wrapper Int_t] ! 0)
       = conversion_rank E0 Bool_t ([recursive_wrapper Bool_t, recursive_wrapper Int_t] ! 1) \<and>
     (\<forall>k<length [recursive_wrapper Bool_t, recursive_wrapper Int_t].
        \<not> better (conversion_rank E0 Bool_t ([recursive_wrapper Bool_t, recursive_wrapper Int_t] ! k))
             (conversion_rank E0 Bool_t ([recursive_wrapper Bool_t, recursive_wrapper Int_t] ! 0)))"
    by (simp add: All_less_Suc numeral_2_eq_2)
  have d: "variant_from_value E0 [recursive_wrapper Bool_t, recursive_wrapper Int_t] Bool_t Rvalue 1 []
     = (Inl Ill_formed, [])"
    using main [where S = Bool_t and Ts = "[recursive_wrapper Bool_t, recursive_wrapper Int_t]"
        and x = 1 and i = 0 and j = 1,
        THEN conjunct2, THEN conjunct2, THEN conjunct2, THEN conjunct1, THEN mp, OF tie] .
  have none': "list_all (\<lambda>k. conversion_rank E0 Node_t (Ts3 ! k) = None) [0..<length Ts3]"
    using none by (simp add: list_all_iff)
  have ne: "[recursive_wrapper Bool_t, recursive_wrapper Int_t] ! 0
     \<noteq> [recursive_wrapper Bool_t, recursive_wrapper Int_t] ! 1" by simp
  from u a u2 b none' c ne r0 r1 d show ?thesis by blast
qed

subsection \<open>\<open>make\<close> and the assertion of the dispatch\<close>

lemma make_plain:
  assumes "t < length Ts" "Ts ! t = Plain T"
  shows "make E h Ts t = Inr \<lparr>storage = Some (Obj T (T_default E T)), active = t\<rparr>"
  using assms
  by (simp add: make_def variant_factory_def apply_v_def visit_impl_def invoke_def
      reinterpret_def default_ctor_def)

lemma make_wrapper:
  assumes "t < length Ts" "Ts ! t = recursive_wrapper T"
  shows "make E h Ts t = Inl Undefined_behaviour"
  using assms
  by (simp add: make_def variant_factory_def apply_v_def visit_impl_def invoke_def
      reinterpret_def)

lemma visit_impl_assert:
  "visit_impl h Ts t internal st visitor args = Inl Assertion_failed" if "\<not> t < length Ts"
  using that by (simp add: visit_impl_def)

lemma visit_impl_in_range:
  "visit_impl h Ts t internal st visitor args = invoke h (Ts ! t) internal st visitor args"
  if "t < length Ts"
  using that by (simp add: visit_impl_def)

lemma make_out_of_range: "\<not> t < length Ts \<Longrightarrow> make E h Ts t = Inl Assertion_failed"
  by (simp add: make_def variant_factory_def apply_v_def visit_impl_def)

text \<open>
  Claim C6: \<open>make(t)\<close> with \<open>t\<close> in range returns a variant whose active alternative
  is the one at index \<open>t\<close>, default-initialized. The lemmas above have it for an
  alternative that is not wrapped, and have the assertion fire exactly out of range. For
  a \<open>recursive_wrapper<T>\<close> alternative the factory constructor dispatches with
  \<open>std::false_type\<close>, so \<open>get_value\<close> calls \<open>get()\<close> on the wrapper that is not yet
  constructed, and \<open>default_ctor\<close> then constructs a \<open>T\<close>, not a wrapper, in the
  storage: \<open>variant<size_t, recursive_wrapper<Node>>::make(0)\<close> is undefined.
\<close>

theorem make_wrapped_alternative_undefined:
  "make E0 [] [recursive_wrapper Node_t] 0 = Inl Undefined_behaviour"
  by (simp add: make_def variant_factory_def apply_v_def visit_impl_def invoke_def
      reinterpret_def)

subsection \<open>Hashing\<close>

lemma hash_variant_wf:
  assumes "wf_variant h Ts v" "active_value h v = Some (T, a)"
  shows "hash_variant E h (Ts, v) = Inr (T_hash E T a)"
  by (simp add: hash_variant_def visit_def expose_def apply_v_external [OF assms] hasher_def)

text \<open>
  Claim C7: the hash of a well-formed variant is the \<open>std::hash\<close> of its active value
  and of nothing else, so that variants with the same active value hash alike whatever
  their discriminators; and when \<open>std::hash\<close> agrees on values that are \<open>==\<close>, equal
  variants have equal hashes.
\<close>

theorem variant_hash:
  assumes "wf_variant h Ts v1" "wf_variant h Ts v2"
  shows "(\<exists>T a. active_value h v1 = Some (T, a) \<and>
                hash_variant E h (Ts, v1) = Inr (T_hash E T a)) \<and>
         (\<forall>Ts' w. wf_variant h Ts' w \<and> active_value h w = active_value h v1
             \<longrightarrow> hash_variant E h (Ts', w) = hash_variant E h (Ts, v1)) \<and>
         ((\<forall>T a b. T_equal E T a b \<longrightarrow> T_hash E T a = T_hash E T b)
             \<longrightarrow> op_eq E h Ts v1 v2 = Inr True
             \<longrightarrow> hash_variant E h (Ts, v1) = hash_variant E h (Ts, v2))"
proof -
  from wf_active_value [OF assms(1)] obtain T a where a: "active_value h v1 = Some (T, a)"
    by blast
  from wf_active_value [OF assms(2)] obtain U b where b: "active_value h v2 = Some (U, b)"
    by blast
  note h1 = hash_variant_wf [OF assms(1) a, of E]
  note h2 = hash_variant_wf [OF assms(2) b, of E]
  note cmp = compare_wf_at [OF assms a b]
  have p1: "\<exists>T a. active_value h v1 = Some (T, a) \<and>
                hash_variant E h (Ts, v1) = Inr (T_hash E T a)"
    using a h1 by blast
  have p2: "hash_variant E h (Ts', w) = hash_variant E h (Ts, v1)"
    if "wf_variant h Ts' w \<and> active_value h w = active_value h v1" for Ts' w
    using that a h1 by (simp add: hash_variant_wf)
  have p3: "hash_variant E h (Ts, v1) = hash_variant E h (Ts, v2)"
    if "\<forall>T a b. T_equal E T a b \<longrightarrow> T_hash E T a = T_hash E T b"
      and "op_eq E h Ts v1 v2 = Inr True"
    using that cmp(1) by (auto simp: cmp(2) h1 h2)
  from p1 p2 p3 show ?thesis by blast
qed

text \<open>Two equal \<open>Node\<close> variants with different heap cells.\<close>

theorem variant_hash_witness:
  "wf_variant [Some 5, Some 5] Ts0 (boxed 3 Node_t 0) \<and>
   wf_variant [Some 5, Some 5] Ts0 (boxed 3 Node_t 1) \<and>
   (\<forall>T a b. T_equal E0 T a b = (a = b)) \<and>
   op_eq E0 [Some 5, Some 5] Ts0 (boxed 3 Node_t 0) (boxed 3 Node_t 1) = Inr True \<and>
   hash_variant E0 [Some 5, Some 5] (Ts0, boxed 3 Node_t 0)
     = hash_variant E0 [Some 5, Some 5] (Ts0, boxed 3 Node_t 1)"
proof -
  have a: "wf_variant [Some (5::int), Some 5] Ts0 (boxed 3 Node_t 0)" by (simp add: deref_def)
  have b: "wf_variant [Some (5::int), Some 5] Ts0 (boxed 3 Node_t 1)" by (simp add: deref_def)
  have c: "\<forall>T a b. T_equal E0 T a b \<longrightarrow> T_hash E0 T a = T_hash E0 T b" by simp
  have d: "op_eq E0 [Some 5, Some 5] Ts0 (boxed 3 Node_t 0) (boxed 3 Node_t 1) = Inr True"
    using compare_wf_at(2) [OF a b, of _ _ _ _ E0] by (simp add: deref_def)
  note main = variant_hash [OF a b, where E = E0]
  have e: "hash_variant E0 [Some 5, Some 5] (Ts0, boxed 3 Node_t 0)
     = hash_variant E0 [Some 5, Some 5] (Ts0, boxed 3 Node_t 1)"
    using main [THEN conjunct2, THEN conjunct2, THEN mp, THEN mp, OF c d] .
  have f: "\<forall>T a b. T_equal E0 T a b = (a = b)" by simp
  from a b d e f show ?thesis by blast
qed

subsection \<open>Visiting several variants\<close>

text \<open>
  Claim C8: \<open>apply_visitor\<close> on several well-formed variants, which curries through
  \<open>binary_visitor\<close>, invokes the visitor once, with the active value of every variant,
  in the order of the variants.
\<close>

theorem nary_visit_curried:
  assumes "list_all2 (\<lambda>w tv. wf_variant h (fst w) (snd w) \<and> active_value h (snd w) = Some tv)
             (w # ws) tvs"
  shows "apply_visitor h visitor w ws = visitor (map concrete tvs)"
  using assms
proof (induction ws arbitrary: visitor w tvs)
  case Nil
  then obtain T y where tv: "tvs = [(T, y)]" "wf_variant h (fst w) (snd w)"
    "active_value h (snd w) = Some (T, y)"
    by (cases tvs) (auto simp: list_all2_Cons1)
  then show ?case by (simp add: apply_v_external concrete_def)
next
  case (Cons w' ws)
  then obtain T y tvs' where tv: "tvs = (T, y) # tvs'" "wf_variant h (fst w) (snd w)"
    "active_value h (snd w) = Some (T, y)"
    and rest: "list_all2 (\<lambda>w tv. wf_variant h (fst w) (snd w) \<and> active_value h (snd w) = Some tv)
             (w' # ws) tvs'"
    by (cases tvs) (auto simp: list_all2_Cons1)
  have "apply_visitor h visitor w (w' # ws) = apply_visitor h (binary_visitor h visitor w) w' ws"
    by simp
  also have "\<dots> = binary_visitor h visitor w (map concrete tvs')"
    using rest by (rule Cons.IH)
  also have "\<dots> = visitor (map concrete tvs)"
    using tv by (simp add: binary_visitor_def apply_v_external concrete_def)
  finally show ?case .
qed

text \<open>Three variants, one of them wrapped: the overload for \<open>(Bool, Node, Text)\<close>.\<close>

theorem nary_visit_curried_witness:
  "list_all2 (\<lambda>w tv. wf_variant [Some 9] (fst w) (snd w) \<and> active_value [Some 9] (snd w) = Some tv)
     [(Ts0, holding 0 Bool_t 1), (Ts0, boxed 3 Node_t 0), (Ts0, holding 2 Text_t 7)]
     [(Bool_t, 1), (Node_t, 9), (Text_t, 7)] \<and>
   apply_visitor [Some 9] overload_name (Ts0, holding 0 Bool_t 1)
     [(Ts0, boxed 3 Node_t 0), (Ts0, holding 2 Text_t 7)]
     = Inr [Plain Bool_t, Plain Node_t, Plain Text_t]"
proof -
  have a: "list_all2 (\<lambda>w tv. wf_variant [Some (9::int)] (fst w) (snd w) \<and>
                active_value [Some 9] (snd w) = Some tv)
     [(Ts0, holding 0 Bool_t 1), (Ts0, boxed 3 Node_t 0), (Ts0, holding 2 Text_t 7)]
     [(Bool_t, 1), (Node_t, 9), (Text_t, 7)]"
    by (simp add: deref_def)
  from nary_visit_curried [OF a, of overload_name] a show ?thesis
    by (simp add: overload_name_def concrete_def)
qed

text \<open>
  The nine ordered pairs of active alternatives over \<open>{Bool, Int, Text}\<close> each invoke
  the overload for that pair.
\<close>

lemma visit_nine_pairs:
  "list_all (\<lambda>(v, w). visit [] overload_name (Ts3, v) [(Ts3, w)]
                        = Inr [Ts3 ! active v, Ts3 ! active w])
     (List.product [holding 0 Bool_t 1, holding 1 Int_t 42, holding 2 Text_t 7]
                   [holding 0 Bool_t 0, holding 1 Int_t 3, holding 2 Text_t 5])"
  by (simp add: visit_def expose_def binary_visitor_def apply_v_def visit_impl_def invoke_def
      reinterpret_def overload_name_def holding_def Ts3_def)

subsection \<open>The recursive wrapper copies deeply\<close>

text \<open>
  Claim C9, as the spec has it: copy construction and copy assignment of the recursive
  wrapper both leave the copy with a fresh heap allocation. Copy assignment does not:
  \<open>assign\<close> writes through the \<open>item\<close> the left-hand side already has. Here the
  wrapper at cell 1 is assigned the wrapper at cell 0; it still owns cell 1, which was
  allocated before, and the heap has no new cell.
\<close>

theorem recursive_wrapper_copy_assign_no_fresh_cell:
  "rw_copy_assign E0 Node_t (Some 1) (Some 0) [Some 5, Some 7] = (Inr (), [Some 5, Some 5]) \<and>
   \<not> owns_fresh_allocation [Some 5, Some 7] [Some 5, Some 5] (Some 1)"
  by (simp add: rw_copy_assign_def rw_get_def deref_def rw_assign_def T_copy_assign_def
      heap_store_def owns_fresh_allocation_def)

text \<open>
  Claim C9, amended: for a source wrapper that holds \<open>x\<close> (and \<open>x == x\<close>), copy
  construction, when the copy constructor of \<open>T\<close> does not raise, gives the copy a fresh
  cell that holds \<open>x\<close>; copy assignment to a wrapper that owns another cell, when the
  assignment of \<open>T\<close> does not raise, allocates nothing and leaves that cell holding
  \<open>x\<close>. Either way the copy's \<open>get()\<close> compares equal to the source's, the source still
  holds \<open>x\<close>, and whatever is stored through the copy's \<open>get()\<close> afterwards, the source
  still holds \<open>x\<close>.
\<close>

theorem recursive_wrapper_copy_deep:
  assumes "holds h src x" and "T_equal E T x x"
  shows "(T_copy_throws E T x = None \<longrightarrow>
           (\<exists>a h'. rw_copy_ctor E T src h = (Inr (Some a), h') \<and>
                    owns_fresh_allocation h h' (Some a) \<and>
                    holds h' (Some a) x \<and> holds h' src x \<and>
                    rw_eq E T h' (Some a) src = Inr True \<and>
                    (\<forall>y. holds (heap_store h' a y) src x))) \<and>
         (\<forall>dst old. holds h dst old \<and> dst \<noteq> src \<and> T_assign_throws E T old x = None \<longrightarrow>
           (\<exists>h'. rw_copy_assign E T dst src h = (Inr (), h') \<and>
                 \<not> owns_fresh_allocation h h' dst \<and> length h' = length h \<and>
                 holds h' dst x \<and> holds h' src x \<and>
                 rw_eq E T h' dst src = Inr True \<and>
                 (\<forall>a y. dst = Some a \<longrightarrow> holds (heap_store h' a y) src x)))"
proof -
  from assms obtain s where s: "src = Some s" "s < length h" "h ! s = Some x"
    by (auto simp: holds_def deref_def split: option.splits if_splits)
  have ctor: "\<exists>a h'. rw_copy_ctor E T src h = (Inr (Some a), h') \<and>
                    owns_fresh_allocation h h' (Some a) \<and>
                    holds h' (Some a) x \<and> holds h' src x \<and>
                    rw_eq E T h' (Some a) src = Inr True \<and>
                    (\<forall>y. holds (heap_store h' a y) src x)"
    if c: "T_copy_throws E T x = None"
  proof -
    have run: "rw_copy_ctor E T src h = (Inr (Some (length h)), h @ [Some x])"
      using s c by (simp add: rw_copy_ctor_def rw_get_def deref_def T_copy_ctor_def heap_new_def)
    have props: "owns_fresh_allocation h (h @ [Some x]) (Some (length h))"
      "holds (h @ [Some x]) (Some (length h)) x" "holds (h @ [Some x]) src x"
      "rw_eq E T (h @ [Some x]) (Some (length h)) src = Inr True"
      "\<forall>y. holds (heap_store (h @ [Some x]) (length h) y) src x"
      using s assms(2)
      by (simp_all add: owns_fresh_allocation_def holds_def deref_def rw_eq_def rw_get_def
          heap_store_def nth_append)
    from run props show ?thesis by blast
  qed
  have asg: "\<exists>h'. rw_copy_assign E T dst src h = (Inr (), h') \<and>
                 \<not> owns_fresh_allocation h h' dst \<and> length h' = length h \<and>
                 holds h' dst x \<and> holds h' src x \<and>
                 rw_eq E T h' dst src = Inr True \<and>
                 (\<forall>a y. dst = Some a \<longrightarrow> holds (heap_store h' a y) src x)"
    if d: "holds h dst old" "dst \<noteq> src" "T_assign_throws E T old x = None" for dst old
  proof -
    from d(1) obtain a where a: "dst = Some a" "a < length h" "h ! a = Some old"
      by (auto simp: holds_def deref_def split: option.splits if_splits)
    from a d(2) s have ne: "a \<noteq> s" by simp
    have run: "rw_copy_assign E T dst src h = (Inr (), h[a := Some x])"
      using s a d(3)
      by (simp add: rw_copy_assign_def rw_assign_def rw_get_def deref_def T_copy_assign_def
          heap_store_def)
    have props: "\<not> owns_fresh_allocation h (h[a := Some x]) dst"
      "length (h[a := Some x]) = length h"
      "holds (h[a := Some x]) dst x" "holds (h[a := Some x]) src x"
      "rw_eq E T (h[a := Some x]) dst src = Inr True"
      "\<forall>b y. dst = Some b \<longrightarrow> holds (heap_store (h[a := Some x]) b y) src x"
      using s a ne assms(2)
      by (simp_all add: owns_fresh_allocation_def holds_def deref_def rw_eq_def rw_get_def
          heap_store_def)
    from run props show ?thesis by blast
  qed
  show ?thesis
  proof (intro conjI allI impI, goal_cases)
    case 1
    then show ?case by (rule ctor)
  next
    case (2 dst old)
    then have "holds h dst old" "dst \<noteq> src" "T_assign_throws E T old x = None" by simp_all
    then show ?case by (rule asg)
  qed
qed

theorem recursive_wrapper_copy_deep_witness:
  "holds [Some 5, Some 7] (Some 0) (5::int) \<and> T_equal E0 Node_t 5 5 \<and>
   T_copy_throws E0 Node_t 5 = None \<and>
   (\<exists>a h'. rw_copy_ctor E0 Node_t (Some 0) [Some 5, Some 7] = (Inr (Some a), h') \<and>
            owns_fresh_allocation [Some 5, Some 7] h' (Some a) \<and> holds h' (Some a) 5 \<and>
            holds (heap_store h' a 9) (Some 0) 5) \<and>
   holds [Some 5, Some 7] (Some 1) (7::int) \<and> T_assign_throws E0 Node_t 7 5 = None \<and>
   (\<exists>h'. rw_copy_assign E0 Node_t (Some 1) (Some 0) [Some 5, Some 7] = (Inr (), h') \<and>
          holds h' (Some 1) 5 \<and> holds (heap_store h' 1 9) (Some 0) 5)"
proof -
  have h1: "holds [Some 5, Some 7] (Some 0) (5::int)" by (simp add: holds_def deref_def)
  have h2: "T_equal E0 Node_t 5 5" by simp
  have h3: "holds [Some 5, Some 7] (Some 1) (7::int)" by (simp add: holds_def deref_def)
  have h4: "T_copy_throws E0 Node_t 5 = None" "T_assign_throws E0 Node_t 7 5 = None" by simp_all
  note main = recursive_wrapper_copy_deep [OF h1 h2]
  have c: "\<exists>a h'. rw_copy_ctor E0 Node_t (Some 0) [Some 5, Some 7] = (Inr (Some a), h') \<and>
            owns_fresh_allocation [Some 5, Some 7] h' (Some a) \<and> holds h' (Some a) 5 \<and>
            holds (heap_store h' a 9) (Some 0) 5"
    using main [THEN conjunct1, rule_format, OF h4(1)] by blast
  have h5: "holds [Some 5, Some 7] (Some 1) (7::int) \<and> Some (1::nat) \<noteq> Some 0 \<and>
            T_assign_throws E0 Node_t 7 5 = None"
    using h3 h4(2) by simp
  have a: "\<exists>h'. rw_copy_assign E0 Node_t (Some 1) (Some 0) [Some 5, Some 7] = (Inr (), h') \<and>
          holds h' (Some 1) 5 \<and> holds (heap_store h' 1 9) (Some 0) 5"
    using main [THEN conjunct2, rule_format, OF h5] by blast
  from h1 h2 h3 h4 c a show ?thesis by blast
qed

subsection \<open>Moving out of a variant\<close>

lemma alt_move_ctor_type [simp]:
  "type_of (fst (alt_move_ctor E x)) = type_of x" "type_of (snd (alt_move_ctor E x)) = type_of x"
  by (cases x; simp add: rw_move_ctor_def)+

lemma alt_move_ctor_value [simp]:
  "wf_obj h (fst (alt_move_ctor E x)) = wf_obj h x"
  "value_of h (fst (alt_move_ctor E x)) = value_of h x"
  by (cases x; simp add: rw_move_ctor_def)+

lemma alt_move_ctor_donor [simp]: "alt_dtor (snd (alt_move_ctor E x)) h = h"
  by (cases x) (simp_all add: rw_move_ctor_def rw_dtor_def)

lemma construct_move_live:
  "construct_move E (Some x) = Inr (Some (fst (alt_move_ctor E x)), Some (snd (alt_move_ctor E x)))"
  by (simp add: construct_move_def split_beta)

lemma destruct_live:
  assumes "active v < length Ts" "storage v = Some x" "type_of x = Ts ! active v"
  shows "destruct Ts v h = (Inr (), v\<lparr>storage := None\<rparr>, alt_dtor x h)"
  using assms by (simp add: destruct_def apply_visitor_internal_live dtor_def)

lemma variant_move_live:
  assumes "active v < length Ts" "storage v = Some x" "type_of x = Ts ! active v"
  shows "variant_move E h Ts v =
           Inr (\<lparr>storage = Some (fst (alt_move_ctor E x)), active = active v\<rparr>,
                v\<lparr>storage := Some (snd (alt_move_ctor E x))\<rparr>)"
  using assms
  by (simp add: variant_move_def apply_visitor_internal_live move_ctor_def construct_move_live)

lemma move_assign_tag: "active (fst (snd (snd (move_assign E Ts self v h)))) = active v"
  by (simp add: move_assign_def split: sum.splits prod.splits)

lemma variant_move_tag: "variant_move E h Ts v = Inr (new, v') \<Longrightarrow> active v' = active v"
  by (auto simp: variant_move_def split: sum.splits prod.splits)

lemma nothrow_move_assignable_plain:
  assumes "list_all is_nothrow_move_assignable Ts" "i < length Ts"
  obtains T where "Ts ! i = Plain T"
proof -
  from assms have "is_nothrow_move_assignable (Ts ! i)" by (simp add: list_all_length)
  then show ?thesis using that
    by (cases "Ts ! i") (simp_all add: is_nothrow_move_assignable_def)
qed

lemma move_assign_live:
  assumes ok: "list_all is_nothrow_move_assignable Ts"
    and v: "active v < length Ts" "storage v = Some x" "type_of x = Ts ! active v"
    and s: "active self < length Ts" "storage self = Some l" "type_of l = Ts ! active self"
  shows "\<exists>T y. x = Obj T y \<and>
           move_assign E Ts self v h =
             (Inr (), \<lparr>storage = Some (Obj T y), active = active v\<rparr>,
              v\<lparr>storage := Some (Obj T (T_moved_from E T y))\<rparr>, h)"
proof -
  from ok v(1) obtain T where T: "Ts ! active v = Plain T"
    by (rule nothrow_move_assignable_plain)
  from ok s(1) obtain U where U: "Ts ! active self = Plain U"
    by (rule nothrow_move_assignable_plain)
  from T v(3) obtain y where x: "x = Obj T y" by (cases x) auto
  from U s(3) obtain w where l: "l = Obj U w" by (cases l) auto
  note live = apply_visitor_internal_live [OF v] x
  have na: "is_nothrow_move_assignable (Plain T)" by (simp add: is_nothrow_move_assignable_def)
  have run: "move_assign E Ts self v h =
             (Inr (), \<lparr>storage = Some (Obj T y), active = active v\<rparr>,
              v\<lparr>storage := Some (Obj T (T_moved_from E T y))\<rparr>, h)"
  proof (cases "active self = active v")
    case True
    with T U have "U = T" by simp
    with True s(2) l have self: "self = \<lparr>storage = Some (Obj T w), active = active v\<rparr>"
      by (cases self) simp
    show ?thesis
      by (simp add: move_assign_def ok live move_assigner_def na self reinterpret_def)
  next
    case False
    have dl: "destruct Ts self h = (Inr (), self\<lparr>storage := None\<rparr>, h)"
      using destruct_live [OF s, of h] by (simp add: l)
    have rec: "self\<lparr>storage := st, active := a\<rparr> = \<lparr>storage = st, active = a\<rparr>" for st a
      by (cases self) simp
    show ?thesis using False
      by (simp add: move_assign_def ok live move_assigner_def na dl construct_move_def rec)
  qed
  with x show ?thesis by blast
qed

text \<open>
  Claim C10: after a well-formed variant \<open>v\<close> was the source of a move construction or
  of a move assignment (to another well-formed variant), \<open>which(v)\<close> is what it was and
  the storage of \<open>v\<close> still holds an object of that alternative, in its moved-from
  state. That object is destructible: destroying the donor returns and frees nothing,
  so that the variant that received the value is well formed and holds the value \<open>v\<close>
  had. No move, whatever its outcome, changes the discriminator of its source. The
  move assignment is that of a variant type for which it compiles, one without a
  \<open>recursive_wrapper\<close> among its alternatives; for the others the compiler rejects
  it.
\<close>

theorem move_keeps_donor_tag:
  fixes E :: "('t, 'a, 'e) type_env"
  shows "(wf_variant h Ts v \<longrightarrow>
           (\<exists>new v' x'. variant_move E h Ts v = Inr (new, v') \<and> which_v v' = which_v v \<and>
               storage v' = Some x' \<and> type_of x' = Ts ! which_v v' \<and>
               destruct Ts v' h = ((Inr (), v'\<lparr>storage := None\<rparr>, h)
                  :: ('e error + unit) \<times> ('t, 'a) variant \<times> 'a heap) \<and>
               wf_variant h Ts new \<and> which_v new = which_v v \<and>
               active_value h new = active_value h v)) \<and>
         (wf_variant h Ts v \<and> wf_variant h Ts self \<and> list_all is_nothrow_move_assignable Ts \<longrightarrow>
           (\<exists>self' v' x'. move_assign E Ts self v h = (Inr (), self', v', h) \<and>
               which_v v' = which_v v \<and>
               storage v' = Some x' \<and> type_of x' = Ts ! which_v v' \<and>
               destruct Ts v' h = ((Inr (), v'\<lparr>storage := None\<rparr>, h)
                  :: ('e error + unit) \<times> ('t, 'a) variant \<times> 'a heap) \<and>
               wf_variant h Ts self' \<and> which_v self' = which_v v \<and>
               active_value h self' = active_value h v)) \<and>
         (\<not> list_all is_nothrow_move_assignable Ts \<longrightarrow>
            move_assign E Ts self v h = (Inl Ill_formed, self, v, h)) \<and>
         (\<forall>new v'. variant_move E h Ts v = Inr (new, v') \<longrightarrow> active v' = active v) \<and>
         active (fst (snd (snd (move_assign E Ts self v h)))) = active v"
proof (intro conjI impI allI, goal_cases)
  case 1
  then obtain x where x: "active v < length Ts" "storage v = Some x"
    "type_of x = Ts ! active v" "wf_obj h x" by (auto elim: wf_variantD)
  let ?d = "v\<lparr>storage := Some (snd (alt_move_ctor E x))\<rparr>"
  have d: "active ?d < length Ts" "storage ?d = Some (snd (alt_move_ctor E x))"
    "type_of (snd (alt_move_ctor E x)) = Ts ! active ?d"
    using x by simp_all
  show ?case
    using x
    by (simp add: variant_move_live [OF x(1-3)] which_v_def destruct_live [OF d]
        wf_variant_def active_value_def)
next
  case 2
  then have ok: "list_all is_nothrow_move_assignable Ts" by blast
  from 2 obtain x l where x: "active v < length Ts" "storage v = Some x"
    "type_of x = Ts ! active v" and l: "active self < length Ts" "storage self = Some l"
    "type_of l = Ts ! active self" by (auto elim!: wf_variantD)
  from move_assign_live [OF ok x l, of E h] obtain T y where r: "x = Obj T y"
    "move_assign E Ts self v h =
       (Inr (), \<lparr>storage = Some (Obj T y), active = active v\<rparr>,
        v\<lparr>storage := Some (Obj T (T_moved_from E T y))\<rparr>, h)"
    by blast
  let ?d = "v\<lparr>storage := Some (Obj T (T_moved_from E T y))\<rparr>"
  have d: "active ?d < length Ts" "storage ?d = Some (Obj T (T_moved_from E T y))"
    "type_of (Obj T (T_moved_from E T y)) = Ts ! active ?d"
    using x r(1) by simp_all
  show ?case
    using x r(1)
    by (simp add: r(2) which_v_def destruct_live [OF d] wf_variant_def active_value_def)
next
  case 3
  then show ?case by (simp add: move_assign_def)
next
  case (4 new v')
  then show ?case by (rule variant_move_tag)
next
  case 5
  show ?case by (rule move_assign_tag)
qed

text \<open>
  A wrapped \<open>Node\<close> moved from: the donor keeps discriminator 3 and a null wrapper, and
  the new variant owns the cell. A \<open>Text\<close> move-assigned to a variant of \<open>Bool\<close>,
  \<open>Int\<close> and \<open>Text\<close> that held an \<open>Int\<close>: the donor keeps discriminator 2.
\<close>

theorem move_keeps_donor_tag_witness:
  "wf_variant [Some 9] Ts0 (boxed 3 Node_t 0) \<and>
   (\<exists>new v'. variant_move E0 [Some 9] Ts0 (boxed 3 Node_t 0) = Inr (new, v') \<and>
       which_v v' = 3 \<and> storage v' = Some (Wrapper_obj Node_t None) \<and>
       active_value [Some 9] new = Some (Node_t, 9)) \<and>
   wf_variant [] Ts3 (holding 2 Text_t 7) \<and> wf_variant [] Ts3 (holding 1 Int_t 42) \<and>
   list_all is_nothrow_move_assignable Ts3 \<and>
   (\<exists>self' v'. move_assign E0 Ts3 (holding 1 Int_t 42) (holding 2 Text_t 7) []
         = (Inr (), self', v', []) \<and> which_v v' = 2 \<and> which_v self' = 2 \<and>
         active_value [] self' = Some (Text_t, 7))"
proof -
  have a: "wf_variant [Some (9::int)] Ts0 (boxed 3 Node_t 0)" by (simp add: deref_def)
  note ctor = move_keeps_donor_tag [where E = E0 and h = "[Some 9]" and Ts = Ts0
      and v = "boxed 3 Node_t 0", THEN conjunct1, rule_format, OF a]
  have m': "variant_move E0 [Some 9] Ts0 (boxed 3 Node_t 0)
      = Inr (\<lparr>storage = Some (Wrapper_obj Node_t (Some 0)), active = 3\<rparr>,
             \<lparr>storage = Some (Wrapper_obj Node_t None), active = 3\<rparr>)"
    by (simp add: variant_move_def apply_visitor_internal_def apply_v_def visit_impl_def
        invoke_def reinterpret_def move_ctor_def construct_move_def rw_move_ctor_def boxed_def)
  from ctor have c: "\<exists>new v'. variant_move E0 [Some 9] Ts0 (boxed 3 Node_t 0) = Inr (new, v') \<and>
       which_v v' = 3 \<and> storage v' = Some (Wrapper_obj Node_t None) \<and>
       active_value [Some 9] new = Some (Node_t, 9)"
    unfolding m' by (auto simp: deref_def)
  have b: "wf_variant [] Ts3 (holding 2 Text_t 7)" by (simp add: Ts3_def)
  have s: "wf_variant [] Ts3 (holding 1 Int_t 42)" by (simp add: Ts3_def)
  have ok: "list_all is_nothrow_move_assignable Ts3"
    by (simp add: Ts3_def is_nothrow_move_assignable_def)
  from move_keeps_donor_tag [where E = E0 and h = "[]" and Ts = Ts3
      and v = "holding 2 Text_t 7" and self = "holding 1 Int_t 42",
      THEN conjunct2, THEN conjunct1, rule_format, OF conjI [OF b conjI [OF s ok]]]
  have d: "\<exists>self' v'. move_assign E0 Ts3 (holding 1 Int_t 42) (holding 2 Text_t 7) []
         = (Inr (), self', v', []) \<and> which_v v' = 2 \<and> which_v self' = 2 \<and>
         active_value [] self' = Some (Text_t, 7)"
    by auto
  from a c b s ok d show ?thesis by blast
qed

end
